theory Spec2Isabelle
  imports Main "HOL-Library.Sublist"
begin

section \<open>The uzudt annotation pipeline\<close>

text \<open>
  A shallow embedding of the resumable annotation pipeline of the repository:
  \<^item> \<^verbatim>\<open>uzudt/annotator.py\<close>: \<^verbatim>\<open>tokens_to_conllu\<close>, the Record Converter;
  \<^item> \<^verbatim>\<open>uzudt/validator.py\<close>: \<^verbatim>\<open>validate_conllu\<close>, the Format Validator Adapter;
  \<^item> \<^verbatim>\<open>scripts/annotate_batch.py\<close>: \<^verbatim>\<open>get_last_processed_index\<close> (the Checkpoint
    Resolver), \<^verbatim>\<open>read_sentences\<close>, \<^verbatim>\<open>annotate_one_sentence\<close> and \<^verbatim>\<open>main\<close> (the
    Pipeline Orchestrator).

  A Python string is a sequence of Unicode code points and is modelled as a list of
  natural numbers; \<open>U\<close> turns an ASCII literal into such a list. Python integers are
  unbounded and modelled as \<open>int\<close>.

  What the interpreter contributes is collected in a record \<open>runtime\<close>: the limit on the
  number of digits in conversions between \<^verbatim>\<open>int\<close> and \<^verbatim>\<open>str\<close>
  (\<^verbatim>\<open>sys.get_int_max_str_digits()\<close>, 0 when there is no limit, 4300 by default) and the
  tables of the Unicode database on the code points from 128 on: which are white space,
  which are decimal digits, and how a string that is not ASCII is lowercased. On ASCII the
  behaviour is written out.
\<close>

subsection \<open>Strings, the runtime, JSON values\<close>

type_synonym ustring = "nat list"

definition U :: "string \<Rightarrow> ustring" where
  "U s = map of_char s"

definition TAB :: ustring where
  "TAB = [9]"

definition NL :: ustring where
  "NL = [10]"

record runtime =
  max_str_digits :: nat
  unicode_isspace :: "nat \<Rightarrow> bool"
  unicode_decimal :: "nat \<Rightarrow> nat option"
  unicode_lower :: "ustring \<Rightarrow> ustring"

text \<open>
  The annotation service returns \<^verbatim>\<open>json.loads(text)\<close>: a list of dictionaries with string
  keys. The values modelled are the JSON scalars \<^verbatim>\<open>null\<close>, booleans, integers and strings.
  Floating-point numbers and nested arrays or objects as field values are outside the model.
\<close>

datatype jval = JNull | JBool bool | JInt int | JStr ustring

type_synonym token = "ustring \<rightharpoonup> jval"

text \<open>
  The ways \<^verbatim>\<open>tokens_to_conllu\<close> raises:
  \<^item> \<open>MissingIdOrForm t\<close>: \<^verbatim>\<open>raise ValueError(f"Token missing ID or FORM: {t}")\<close>;
  \<^item> \<open>IntValueError s\<close>: the \<^verbatim>\<open>ValueError\<close> of \<^verbatim>\<open>int(s)\<close> on a string that is not an integer
    literal or has more digits than the limit;
  \<^item> \<open>IntTypeError v\<close>: the \<^verbatim>\<open>TypeError\<close> of \<^verbatim>\<open>int(None)\<close>;
  \<^item> \<open>StrValueError n\<close>: the \<^verbatim>\<open>ValueError\<close> of \<^verbatim>\<open>str(n)\<close> on an integer with more digits than
    the limit.
\<close>

datatype conv_error =
    MissingIdOrForm token
  | IntValueError ustring
  | IntTypeError jval
  | StrValueError int

text \<open>
  The digit limit applies to conversions of more than 640 digits, when a limit is set.
\<close>

definition exceeds_limit :: "runtime \<Rightarrow> nat \<Rightarrow> bool" where
  "exceeds_limit rt digits \<longleftrightarrow> 640 < digits \<and> 0 < max_str_digits rt \<and> max_str_digits rt < digits"

text \<open>The decimal digits of an integer, with a minus sign when negative.\<close>

fun str_nat :: "nat \<Rightarrow> ustring" where
  "str_nat n = (if n < 10 then [48 + n] else str_nat (n div 10) @ [48 + n mod 10])"

declare str_nat.simps [simp del]

definition str_int :: "int \<Rightarrow> ustring" where
  "str_int i = (if i < 0 then 45 # str_nat (nat (- i)) else str_nat (nat i))"

text \<open>\<^verbatim>\<open>str(n)\<close> for an integer.\<close>

definition py_str_int :: "runtime \<Rightarrow> int \<Rightarrow> conv_error + ustring" where
  "py_str_int rt n =
     (if exceeds_limit rt (length (str_nat (nat \<bar>n\<bar>))) then Inl (StrValueError n)
      else Inr (str_int n))"

text \<open>
  \<^verbatim>\<open>str.isspace\<close> per character, used by \<^verbatim>\<open>str.strip()\<close>; and the smaller set of C's
  \<^verbatim>\<open>isspace\<close>, used by \<^verbatim>\<open>int\<close>.
\<close>

definition is_ascii :: "ustring \<Rightarrow> bool" where
  "is_ascii s = list_all (\<lambda>c. c < 128) s"

definition c_isspace :: "nat \<Rightarrow> bool" where
  "c_isspace c \<longleftrightarrow> (9 \<le> c \<and> c \<le> 13) \<or> c = 32"

definition py_isspace :: "runtime \<Rightarrow> nat \<Rightarrow> bool" where
  "py_isspace rt c \<longleftrightarrow>
     (if c < 128 then (9 \<le> c \<and> c \<le> 13) \<or> (28 \<le> c \<and> c \<le> 32) else unicode_isspace rt c)"

definition is_digit :: "nat \<Rightarrow> bool" where
  "is_digit c \<longleftrightarrow> 48 \<le> c \<and> c \<le> 57"

definition digit_val :: "nat \<Rightarrow> nat" where
  "digit_val c = c - 48"

text \<open>
  \<^verbatim>\<open>int(s)\<close>, base 10. A string that is not ASCII is first rewritten: code points below 127
  are kept, Unicode white space becomes a blank, a Unicode decimal digit becomes its ASCII
  digit, anything else a question mark. An ASCII string is taken as it is. Then white space
  of C's \<^verbatim>\<open>isspace\<close> is skipped on both sides, one sign is allowed, and decimal digits
  follow, where a single underscore may stand between two digits. Anything else, and a
  digit count over the limit, raises \<^verbatim>\<open>ValueError\<close> (here \<open>None\<close>).
\<close>

definition to_ascii :: "runtime \<Rightarrow> nat \<Rightarrow> nat" where
  "to_ascii rt c =
     (if c < 127 then c
      else if py_isspace rt c then 32
      else if c < 128 then 63
      else (case unicode_decimal rt c of
              None \<Rightarrow> 63
            | Some d \<Rightarrow> if d < 10 then 48 + d else 63))"

fun digits_tail :: "nat \<Rightarrow> nat \<Rightarrow> ustring \<Rightarrow> (nat \<times> nat \<times> ustring) option" where
  "digits_tail acc cnt [] = Some (acc, cnt, [])"
| "digits_tail acc cnt (c # cs) =
     (if is_digit c then digits_tail (acc * 10 + digit_val c) (cnt + 1) cs
      else if c = 95 then
        (case cs of
           [] \<Rightarrow> None
         | d # ds \<Rightarrow>
             if is_digit d then digits_tail (acc * 10 + digit_val d) (cnt + 1) ds else None)
      else Some (acc, cnt, c # cs))"

definition parse_int :: "runtime \<Rightarrow> ustring \<Rightarrow> int option" where
  "parse_int rt s =
     (let s1 = dropWhile c_isspace s;
          neg = (case s1 of c # _ \<Rightarrow> c = 45 | [] \<Rightarrow> False);
          s2 = (case s1 of c # cs \<Rightarrow> if c = 43 \<or> c = 45 then cs else s1 | [] \<Rightarrow> s1)
      in case s2 of
           [] \<Rightarrow> None
         | c # cs \<Rightarrow>
             if is_digit c then
               (case digits_tail (digit_val c) 1 cs of
                  None \<Rightarrow> None
                | Some (n, cnt, rest) \<Rightarrow>
                    if exceeds_limit rt cnt then None
                    else if dropWhile c_isspace rest = [] then Some (if neg then - int n else int n)
                    else None)
             else None)"

definition int_of_string :: "runtime \<Rightarrow> ustring \<Rightarrow> int option" where
  "int_of_string rt s = parse_int rt (if is_ascii s then s else map (to_ascii rt) s)"

text \<open>
  \<^verbatim>\<open>str.lower()\<close>: on an ASCII string the letters A to Z are mapped; any other string is
  lowercased by the Unicode database.
\<close>

definition ascii_lower :: "nat \<Rightarrow> nat" where
  "ascii_lower c = (if 65 \<le> c \<and> c \<le> 90 then c + 32 else c)"

definition py_lower :: "runtime \<Rightarrow> ustring \<Rightarrow> ustring" where
  "py_lower rt s = (if is_ascii s then map ascii_lower s else unicode_lower rt s)"

text \<open>\<^verbatim>\<open>int(v)\<close> and \<^verbatim>\<open>str(v)\<close> on a JSON value.\<close>

definition py_int :: "runtime \<Rightarrow> jval \<Rightarrow> conv_error + int" where
  "py_int rt v =
     (case v of
        JInt n \<Rightarrow> Inr n
      | JBool b \<Rightarrow> Inr (if b then 1 else 0)
      | JStr s \<Rightarrow> (case int_of_string rt s of None \<Rightarrow> Inl (IntValueError s) | Some n \<Rightarrow> Inr n)
      | JNull \<Rightarrow> Inl (IntTypeError JNull))"

definition py_str :: "runtime \<Rightarrow> jval \<Rightarrow> conv_error + ustring" where
  "py_str rt v =
     (case v of
        JStr s \<Rightarrow> Inr s
      | JInt n \<Rightarrow> py_str_int rt n
      | JBool b \<Rightarrow> Inr (if b then U ''True'' else U ''False'')
      | JNull \<Rightarrow> Inr (U ''None''))"

text \<open>\<^verbatim>\<open>t.get(k, d)\<close> and \<^verbatim>\<open>sep.join(xs)\<close>.\<close>

definition dict_get :: "token \<Rightarrow> ustring \<Rightarrow> jval \<Rightarrow> jval" where
  "dict_get t k d = (case t k of None \<Rightarrow> d | Some v \<Rightarrow> v)"

fun join :: "ustring \<Rightarrow> ustring list \<Rightarrow> ustring" where
  "join sep [] = []"
| "join sep [x] = x"
| "join sep (x # y # ys) = x @ sep @ join sep (y # ys)"

subsection \<open>The Record Converter: \<^verbatim>\<open>tokens_to_conllu\<close>\<close>

text \<open>
  The body of the \<^verbatim>\<open>for t in tokens\<close> loop, in the order of the source: the check for the
  two required keys, \<^verbatim>\<open>int(t["ID"])\<close>, \<^verbatim>\<open>str(t["FORM"])\<close>, the lemma with its default
  \<^verbatim>\<open>form.lower()\<close>, the part of speech, \<^verbatim>\<open>int(t.get("HEAD ID", 0))\<close>, the relation, and last
  the ten columns joined by tabs, where \<^verbatim>\<open>str(tid)\<close> and \<^verbatim>\<open>str(head_id)\<close> are evaluated.
\<close>

definition token_line :: "runtime \<Rightarrow> token \<Rightarrow> conv_error + ustring" where
  "token_line rt t =
     (case (t (U ''ID''), t (U ''FORM'')) of
        (Some id_v, Some form_v) \<Rightarrow>
          (case py_int rt id_v of Inl e \<Rightarrow> Inl e | Inr tid \<Rightarrow>
          (case py_str rt form_v of Inl e \<Rightarrow> Inl e | Inr form \<Rightarrow>
          (case py_str rt (dict_get t (U ''LEMMA'') (JStr (py_lower rt form))) of
             Inl e \<Rightarrow> Inl e | Inr lemma \<Rightarrow>
          (case py_str rt (dict_get t (U ''UPOS'') (JStr (U ''X''))) of
             Inl e \<Rightarrow> Inl e | Inr upos \<Rightarrow>
          (case py_int rt (dict_get t (U ''HEAD ID'') (JInt 0)) of
             Inl e \<Rightarrow> Inl e | Inr head_id \<Rightarrow>
          (case py_str rt (dict_get t (U ''DEPREL'') (JStr (U ''dep''))) of
             Inl e \<Rightarrow> Inl e | Inr deprel \<Rightarrow>
          (case py_str_int rt tid of Inl e \<Rightarrow> Inl e | Inr tid_s \<Rightarrow>
          (case py_str_int rt head_id of Inl e \<Rightarrow> Inl e | Inr head_s \<Rightarrow>
             Inr (join TAB [tid_s, form, lemma, upos, U ''_'', U ''_'',
                            head_s, deprel, U ''_'', U ''_''])))))))))
      | _ \<Rightarrow> Inl (MissingIdOrForm t))"

text \<open>The loop appends each line to \<^verbatim>\<open>lines\<close>; the first exception leaves the function.\<close>

fun convert_loop :: "runtime \<Rightarrow> token list \<Rightarrow> ustring list \<Rightarrow> conv_error + ustring list" where
  "convert_loop rt [] lines = Inr lines"
| "convert_loop rt (t # ts) lines =
     (case token_line rt t of
        Inl e \<Rightarrow> Inl e
      | Inr line \<Rightarrow> convert_loop rt ts (lines @ [line]))"

definition tokens_to_conllu :: "runtime \<Rightarrow> token list \<Rightarrow> conv_error + ustring" where
  "tokens_to_conllu rt tokens =
     (case convert_loop rt tokens [] of
        Inl e \<Rightarrow> Inl e
      | Inr lines \<Rightarrow> Inr (join NL lines @ NL))"

text \<open>A token lacks a required field when \<^verbatim>\<open>"ID" not in t or "FORM" not in t\<close>.\<close>

definition lacks_required :: "token \<Rightarrow> bool" where
  "lacks_required t \<longleftrightarrow> t (U ''ID'') = None \<or> t (U ''FORM'') = None"

text \<open>The result is the missing-field error (the \<open>MalformedTokenError\<close> of the specification).\<close>

definition malformed_token_error :: "conv_error + ustring \<Rightarrow> bool" where
  "malformed_token_error r = (case r of Inl (MissingIdOrForm _) \<Rightarrow> True | _ \<Rightarrow> False)"

text \<open>An integer whose decimal digits are within the limit of the runtime.\<close>

definition within_limit :: "runtime \<Rightarrow> int \<Rightarrow> bool" where
  "within_limit rt n \<longleftrightarrow> \<not> exceeds_limit rt (length (str_nat (nat \<bar>n\<bar>)))"

text \<open>
  A runtime for the examples: the default limit of 4300 digits, the white space of the
  Unicode database from 128 on, and, cut down to what the examples use, the Arabic-Indic
  digits and the lowercasing of the basic Cyrillic capitals.
\<close>

definition example_runtime :: runtime where
  "example_runtime =
     \<lparr>max_str_digits = 4300,
      unicode_isspace = (\<lambda>c. c \<in> set [133, 160, 5760, 8192, 8193, 8194, 8195, 8196, 8197, 8198,
                                          8199, 8200, 8201, 8202, 8232, 8233, 8239, 8287, 12288]),
      unicode_decimal = (\<lambda>c. if 1632 \<le> c \<and> c \<le> 1641 then Some (c - 1632) else None),
      unicode_lower = map (\<lambda>c. if 1040 \<le> c \<and> c \<le> 1071 then c + 32 else ascii_lower c)\<rparr>"

subsection \<open>Files\<close>

text \<open>
  A file that the program reads is absent, or opening and decoding it as UTF-8 raises
  (\<open>Unreadable\<close>), or it decodes to a text. The exceptions that leave \<^verbatim>\<open>main\<close> are the
  \<^verbatim>\<open>FileNotFoundError\<close> it raises itself, the error of a read that raises, the
  \<^verbatim>\<open>UnicodeEncodeError\<close> of writing a text that UTF-8 cannot encode, and the \<^verbatim>\<open>ValueError\<close>
  of formatting an integer beyond the digit limit or of a JSON dump that raises.
\<close>

datatype file_state = Missing | Unreadable | Text ustring

datatype py_exception = FileNotFoundError | ReadError | UnicodeEncodeError | ValueError

subsection \<open>The Checkpoint Resolver: \<^verbatim>\<open>get_last_processed_index\<close>\<close>

text \<open>\<^verbatim>\<open>str.strip()\<close> removes the characters of \<^verbatim>\<open>str.isspace\<close> on both sides.\<close>

definition py_strip :: "runtime \<Rightarrow> ustring \<Rightarrow> ustring" where
  "py_strip rt s = rev (dropWhile (py_isspace rt) (rev (dropWhile (py_isspace rt) s)))"

text \<open>
  \<^verbatim>\<open>s.split(sep)\<close>: the pieces between the occurrences of \<^verbatim>\<open>sep\<close>, found from left to right
  without overlap. An empty separator raises \<^verbatim>\<open>ValueError\<close> (here \<open>None\<close>).
\<close>

fun py_split_aux :: "ustring \<Rightarrow> ustring \<Rightarrow> ustring \<Rightarrow> ustring list" where
  "py_split_aux sep cur [] = [cur]"
| "py_split_aux sep cur (c # cs) =
     (if sep \<noteq> [] \<and> prefix sep (c # cs)
      then cur # py_split_aux sep [] (drop (length sep) (c # cs))
      else py_split_aux sep (cur @ [c]) cs)"

definition py_split :: "ustring \<Rightarrow> ustring \<Rightarrow> ustring list option" where
  "py_split sep s = (if sep = [] then None else Some (py_split_aux sep [] s))"

text \<open>
  Iterating over a file opened in text mode yields its lines, each with its terminator;
  the terminators LF, CR and CR LF are all read as LF (universal newlines).
\<close>

fun file_lines_aux :: "ustring \<Rightarrow> ustring \<Rightarrow> ustring list" where
  "file_lines_aux cur [] = (if cur = [] then [] else [cur])"
| "file_lines_aux cur [c] = (if c = 10 \<or> c = 13 then [cur @ [10]] else [cur @ [c]])"
| "file_lines_aux cur (c # d # ds) =
     (if c = 13 \<and> d = 10 then (cur @ [10]) # file_lines_aux [] ds
      else if c = 10 \<or> c = 13 then (cur @ [10]) # file_lines_aux [] (d # ds)
      else file_lines_aux (cur @ [c]) (d # ds))"

definition file_lines :: "ustring \<Rightarrow> ustring list" where
  "file_lines text = file_lines_aux [] text"

text \<open>
  What one round of the loop of \<^verbatim>\<open>get_last_processed_index\<close> reads from a line: the line is
  stripped; if it starts with \<^verbatim>\<open># sent_id = auto-\<close>, the last piece of
  \<^verbatim>\<open>line.split("auto-")\<close> is given to \<^verbatim>\<open>int\<close>. A \<^verbatim>\<open>ValueError\<close> is caught and the line is
  passed over (\<open>None\<close>). The list returned by \<^verbatim>\<open>split\<close> is never empty, so \<^verbatim>\<open>[-1]\<close> does
  not raise.
\<close>

definition header_value :: "runtime \<Rightarrow> ustring \<Rightarrow> int option" where
  "header_value rt raw =
     (let line = py_strip rt raw in
      if prefix (U ''# sent_id = auto-'') line then
        (case py_split (U ''auto-'') line of
           None \<Rightarrow> None
         | Some pieces \<Rightarrow> int_of_string rt (last pieces))
      else None)"

text \<open>The loop body: \<^verbatim>\<open>if n > last: last = n\<close>.\<close>

definition scan_line :: "runtime \<Rightarrow> int \<Rightarrow> ustring \<Rightarrow> int" where
  "scan_line rt last_n raw =
     (case header_value rt raw of
        None \<Rightarrow> last_n
      | Some n \<Rightarrow> if n > last_n then n else last_n)"

text \<open>
  The argument is the state of the Corpus file. Opening the file and decoding its lines
  happen outside the \<^verbatim>\<open>try\<close>, so a file that cannot be read makes the function raise.
\<close>

definition get_last_processed_index :: "runtime \<Rightarrow> file_state \<Rightarrow> py_exception + int" where
  "get_last_processed_index rt gold_file =
     (case gold_file of
        Missing \<Rightarrow> Inr 0
      | Unreadable \<Rightarrow> Inl ReadError
      | Text text \<Rightarrow> Inr (foldl (scan_line rt) 0 (file_lines text)))"

text \<open>
  The reading of the checkpoint that the specification and the docstring state: the
  greatest N over the headers \<^verbatim>\<open># sent_id = auto-N\<close> of the Corpus, and 0 when there is
  none. The argument is the list of the N of these headers.
\<close>

definition claimed_checkpoint :: "int list \<Rightarrow> int" where
  "claimed_checkpoint ns = (if ns = [] then 0 else Max (set ns))"


subsection \<open>The external services\<close>

text \<open>
  What lies outside the program is a parameter of the model:
  \<^item> \<open>annotate model i sentence\<close>: \<^verbatim>\<open>annotate_sentence_with_llm\<close>, the call of the annotation
    service for the sentence of index \<open>i\<close>; it returns the token list, or raises an exception
    whose \<^verbatim>\<open>str\<close> is the text given (\<open>Inl\<close>). The index is an argument because the service
    need not answer twice alike;
  \<^item> \<open>script_present\<close>: whether \<^verbatim>\<open>tools/ud-tools/validate.py\<close> exists, and
    \<open>script_missing_text\<close>, the \<^verbatim>\<open>str\<close> of the \<^verbatim>\<open>FileNotFoundError\<close> raised when it does not;
  \<^item> \<open>encode_error_text s\<close>: the \<^verbatim>\<open>str\<close> of the \<^verbatim>\<open>UnicodeEncodeError\<close> raised on writing \<open>s\<close>;
  \<^item> \<open>run_validator i record\<close>: \<^verbatim>\<open>subprocess.run\<close> of the validator on the temporary file
    holding the Record; it returns the exit status, the standard output and the standard
    error, or raises;
  \<^item> \<open>error_text e\<close>: the \<^verbatim>\<open>str\<close> of an exception of the Record Converter;
  \<^item> \<open>dumps tokens\<close>: \<^verbatim>\<open>json.dumps(tokens, ensure_ascii=False, indent=2)\<close>, \<open>None\<close> when it
    raises.
\<close>

record services =
  annotate :: "ustring \<Rightarrow> int \<Rightarrow> ustring \<Rightarrow> ustring + token list"
  script_present :: bool
  script_missing_text :: ustring
  encode_error_text :: "ustring \<Rightarrow> ustring"
  run_validator :: "int \<Rightarrow> ustring \<Rightarrow> ustring + (int \<times> ustring \<times> ustring)"
  error_text :: "conv_error \<Rightarrow> ustring"
  dumps :: "token list \<Rightarrow> ustring option"

text \<open>
  The state a run works on: the sentence file, the Corpus file, the files of the log
  directory by name, and, in order, the calls of the Annotation Service Adapter and the
  runs of the external validator. Console output is not part of the state; the standard
  output is taken to accept every text. Directories are taken to exist or to be creatable,
  and files written in text mode keep their newlines (POSIX).
\<close>

record world =
  raw_sentences :: file_state
  gold :: file_state
  logs :: "ustring \<rightharpoonup> ustring"
  annotated :: "(int \<times> ustring) list"
  validated :: "(int \<times> ustring) list"

text \<open>
  A text can be encoded in UTF-8 when it holds no surrogate code point; writing any other
  text to a file opened with \<^verbatim>\<open>encoding="utf-8"\<close> raises \<^verbatim>\<open>UnicodeEncodeError\<close>.
\<close>

definition utf8_encodable :: "ustring \<Rightarrow> bool" where
  "utf8_encodable s = list_all (\<lambda>c. c < 55296 \<or> (57343 < c \<and> c < 1114112)) s"

subsection \<open>Reading the sentences\<close>

text \<open>
  \<^verbatim>\<open>str.splitlines()\<close> and \<^verbatim>\<open>read_sentences\<close>:
  \<^verbatim>\<open>[line.strip() for line in text.splitlines() if line.strip()]\<close>.
\<close>

definition is_linebreak :: "nat \<Rightarrow> bool" where
  "is_linebreak c \<longleftrightarrow> c \<in> set [10, 11, 12, 13, 28, 29, 30, 133, 8232, 8233]"

fun splitlines_aux :: "ustring \<Rightarrow> ustring \<Rightarrow> ustring list" where
  "splitlines_aux cur [] = (if cur = [] then [] else [cur])"
| "splitlines_aux cur [c] = (if is_linebreak c then [cur] else [cur @ [c]])"
| "splitlines_aux cur (c # d # ds) =
     (if c = 13 \<and> d = 10 then cur # splitlines_aux [] ds
      else if is_linebreak c then cur # splitlines_aux [] (d # ds)
      else splitlines_aux (cur @ [c]) (d # ds))"

definition py_splitlines :: "ustring \<Rightarrow> ustring list" where
  "py_splitlines text = splitlines_aux [] text"

definition read_sentences :: "runtime \<Rightarrow> ustring \<Rightarrow> ustring list" where
  "read_sentences rt text =
     map (py_strip rt) (filter (\<lambda>line. py_strip rt line \<noteq> []) (py_splitlines text))"

text \<open>The text of the Corpus file, empty when there is no file.\<close>

definition gold_text :: "world \<Rightarrow> ustring" where
  "gold_text w = (case gold w of Text t \<Rightarrow> t | _ \<Rightarrow> [])"

subsection \<open>The Format Validator Adapter: \<^verbatim>\<open>validate_conllu\<close>\<close>

text \<open>
  In the order of the source: the script is looked up (\<^verbatim>\<open>get_validate_script_path\<close>), the
  Record is written to a temporary file in UTF-8, the validator is run, and
  \<^verbatim>\<open>ok = returncode == 0\<close>, \<^verbatim>\<open>log = stdout + "\n" + stderr\<close>. The temporary file is left
  behind; it is not part of the state.
\<close>

definition validate_conllu ::
  "services \<Rightarrow> int \<Rightarrow> ustring \<Rightarrow> world \<Rightarrow> (ustring + (bool \<times> ustring)) \<times> world" where
  "validate_conllu sv idx conllu_str w =
     (if \<not> script_present sv then (Inl (script_missing_text sv), w)
      else if \<not> utf8_encodable conllu_str then (Inl (encode_error_text sv conllu_str), w)
      else
        (let w1 = w\<lparr>validated := validated w @ [(idx, conllu_str)]\<rparr> in
         case run_validator sv idx conllu_str of
           Inl msg \<Rightarrow> (Inl msg, w1)
         | Inr (returncode, out, err) \<Rightarrow> (Inr (returncode = 0, out @ NL @ err), w1)))"

subsection \<open>The Pipeline Orchestrator\<close>

text \<open>\<^verbatim>\<open>annotate_one_sentence\<close>; the model name is \<^verbatim>\<open>model or "gpt-5-mini"\<close>.\<close>

definition annotate_one_sentence ::
  "runtime \<Rightarrow> services \<Rightarrow> ustring \<Rightarrow> int \<Rightarrow> ustring \<Rightarrow> world \<Rightarrow>
   (ustring + (bool \<times> ustring \<times> token list \<times> ustring)) \<times> world" where
  "annotate_one_sentence rt sv sentence idx model w =
     (let w1 = w\<lparr>annotated := annotated w @ [(idx, sentence)]\<rparr> in
      case annotate sv (if model = [] then U ''gpt-5-mini'' else model) idx sentence of
        Inl msg \<Rightarrow> (Inl msg, w1)
      | Inr tokens \<Rightarrow>
          (case tokens_to_conllu rt tokens of
             Inl ce \<Rightarrow> (Inl (error_text sv ce), w1)
           | Inr conllu_str \<Rightarrow>
               (case validate_conllu sv idx conllu_str w1 of
                  (Inl msg, w2) \<Rightarrow> (Inl msg, w2)
                | (Inr (ok, log), w2) \<Rightarrow> (Inr (ok, conllu_str, tokens, log), w2))))"

text \<open>
  The names of the diagnostic files: \<^verbatim>\<open>f"sentence_{i:04d}_exception.txt"\<close>, and
  \<^verbatim>\<open>f"sentence_{i:04d}"\<close> with the suffixes \<^verbatim>\<open>.json\<close>, \<^verbatim>\<open>.conllu\<close> and \<^verbatim>\<open>.val.log\<close>.
\<close>

definition fmt_04d :: "int \<Rightarrow> ustring" where
  "fmt_04d i =
     (if i < 0 then 45 # replicate (3 - length (str_nat (nat (- i)))) 48 @ str_nat (nat (- i))
      else replicate (4 - length (str_nat (nat i))) 48 @ str_nat (nat i))"

definition exception_path :: "int \<Rightarrow> ustring" where
  "exception_path i = U ''sentence_'' @ fmt_04d i @ U ''_exception.txt''"

definition json_path :: "int \<Rightarrow> ustring" where
  "json_path i = U ''sentence_'' @ fmt_04d i @ U ''.json''"

definition conllu_path :: "int \<Rightarrow> ustring" where
  "conllu_path i = U ''sentence_'' @ fmt_04d i @ U ''.conllu''"

definition val_path :: "int \<Rightarrow> ustring" where
  "val_path i = U ''sentence_'' @ fmt_04d i @ U ''.val.log''"

text \<open>The text of the exception file.\<close>

definition exception_report :: "int \<Rightarrow> ustring \<Rightarrow> ustring \<Rightarrow> ustring" where
  "exception_report i sent msg =
     U ''Sentence index: '' @ str_int i @ NL @ U ''Sentence: '' @ sent @ NL @ NL @
     U ''Error: '' @ msg @ NL"

text \<open>
  \<^verbatim>\<open>Path.write_text(data, encoding="utf-8")\<close> opens the file for writing, which empties it,
  and writes; when the text cannot be encoded the write raises and the file stays empty.
  \<^verbatim>\<open>gold_out.write(data)\<close> appends to the Corpus, or raises and appends nothing.
\<close>

definition write_text :: "ustring \<Rightarrow> ustring \<Rightarrow> world \<Rightarrow> py_exception option \<times> world" where
  "write_text path data w =
     (if utf8_encodable data then (None, w\<lparr>logs := (logs w)(path \<mapsto> data)\<rparr>)
      else (Some UnicodeEncodeError, w\<lparr>logs := (logs w)(path \<mapsto> [])\<rparr>))"

definition gold_write :: "ustring \<Rightarrow> world \<Rightarrow> py_exception option \<times> world" where
  "gold_write data w =
     (if utf8_encodable data then (None, w\<lparr>gold := Text (gold_text w @ data)\<rparr>)
      else (Some UnicodeEncodeError, w))"

text \<open>What the four writes of a commit append, and the four writes in order.\<close>

definition commit_block :: "int \<Rightarrow> ustring \<Rightarrow> ustring \<Rightarrow> ustring" where
  "commit_block i sent conllu_str =
     (U ''# sent_id = auto-'' @ str_int i @ NL) @ (U ''# text = '' @ sent @ NL) @ conllu_str @ NL"

datatype outcome = Committed | Halted | Raised py_exception

definition commit :: "int \<Rightarrow> ustring \<Rightarrow> ustring \<Rightarrow> world \<Rightarrow> outcome \<times> world" where
  "commit i sent conllu_str w =
     (case gold_write (U ''# sent_id = auto-'' @ str_int i @ NL) w of
        (Some e, w1) \<Rightarrow> (Raised e, w1)
      | (None, w1) \<Rightarrow>
     (case gold_write (U ''# text = '' @ sent @ NL) w1 of
        (Some e, w2) \<Rightarrow> (Raised e, w2)
      | (None, w2) \<Rightarrow>
     (case gold_write conllu_str w2 of
        (Some e, w3) \<Rightarrow> (Raised e, w3)
      | (None, w3) \<Rightarrow>
     (case gold_write NL w3 of
        (Some e, w4) \<Rightarrow> (Raised e, w4)
      | (None, w4) \<Rightarrow> (Committed, w4)))))"

text \<open>The branch of an invalid Record: the three diagnostic files, in order.\<close>

definition log_invalid ::
  "services \<Rightarrow> int \<Rightarrow> token list \<Rightarrow> ustring \<Rightarrow> ustring \<Rightarrow> world \<Rightarrow> outcome \<times> world" where
  "log_invalid sv i tokens conllu_str v_log w =
     (case dumps sv tokens of
        None \<Rightarrow> (Raised ValueError, w)
      | Some js \<Rightarrow>
     (case write_text (json_path i) js w of
        (Some e, w1) \<Rightarrow> (Raised e, w1)
      | (None, w1) \<Rightarrow>
     (case write_text (conllu_path i) conllu_str w1 of
        (Some e, w2) \<Rightarrow> (Raised e, w2)
      | (None, w2) \<Rightarrow>
     (case write_text (val_path i) v_log w2 of
        (Some e, w3) \<Rightarrow> (Raised e, w3)
      | (None, w3) \<Rightarrow> (Halted, w3)))))"

text \<open>
  The body of the loop for a sentence that is not skipped. It starts with
  \<^verbatim>\<open>print(f"[{i}/{total}] {sent}")\<close>, which raises \<^verbatim>\<open>ValueError\<close> when an integer is beyond the
  digit limit. The \<^verbatim>\<open>try\<close> covers \<^verbatim>\<open>annotate_one_sentence\<close> only: an exception raised
  while a diagnostic file or the Corpus is written leaves the loop and \<^verbatim>\<open>main\<close>.
\<close>

definition process_sentence ::
  "runtime \<Rightarrow> services \<Rightarrow> ustring \<Rightarrow> int \<Rightarrow> int \<Rightarrow> ustring \<Rightarrow> world \<Rightarrow> outcome \<times> world" where
  "process_sentence rt sv model n_total i sent w =
     (if \<not> (within_limit rt i \<and> within_limit rt n_total) then (Raised ValueError, w)
      else
        (case annotate_one_sentence rt sv sent i model w of
           (Inl msg, w1) \<Rightarrow>
             (case write_text (exception_path i) (exception_report i sent msg) w1 of
                (Some e, w2) \<Rightarrow> (Raised e, w2)
              | (None, w2) \<Rightarrow> (Halted, w2))
         | (Inr (ok, conllu_str, tokens, v_log), w1) \<Rightarrow>
             if ok then commit i sent conllu_str w1
             else log_invalid sv i tokens conllu_str v_log w1))"

text \<open>\<^verbatim>\<open>enumerate(sentences, start=1)\<close> and the loop with its \<^verbatim>\<open>continue\<close> and \<^verbatim>\<open>break\<close>.\<close>

fun enumerate_from :: "int \<Rightarrow> 'a list \<Rightarrow> (int \<times> 'a) list" where
  "enumerate_from i [] = []"
| "enumerate_from i (x # xs) = (i, x) # enumerate_from (i + 1) xs"

datatype loop_end = Exhausted | Broke | Aborted py_exception

fun run_loop ::
  "runtime \<Rightarrow> services \<Rightarrow> ustring \<Rightarrow> int \<Rightarrow> int \<Rightarrow> (int \<times> ustring) list \<Rightarrow> world \<Rightarrow>
   loop_end \<times> world" where
  "run_loop rt sv model n_total start_from [] w = (Exhausted, w)"
| "run_loop rt sv model n_total start_from ((i, sent) # rest) w =
     (if i < start_from then run_loop rt sv model n_total start_from rest w
      else
        (case process_sentence rt sv model n_total i sent w of
           (Committed, w') \<Rightarrow> run_loop rt sv model n_total start_from rest w'
         | (Halted, w') \<Rightarrow> (Broke, w')
         | (Raised e, w') \<Rightarrow> (Aborted e, w')))"

text \<open>
  The starting index of \<^verbatim>\<open>main\<close>: the override \<^verbatim>\<open>--start-from\<close> when given, else the
  checkpoint plus 1, and at least 1.
\<close>

definition resume_index :: "int option \<Rightarrow> int \<Rightarrow> int" where
  "resume_index start_arg last_processed =
     (let inferred_start = last_processed + 1;
          start_from = (case start_arg of None \<Rightarrow> inferred_start | Some s \<Rightarrow> s)
      in if start_from < 1 then 1 else start_from)"

text \<open>
  \<^verbatim>\<open>main\<close>. The result is the exception that leaves it, if any, and the final state. A
  sentence file that holds a surrogate code point cannot come from decoding UTF-8 and
  stands for a file that cannot be read. The \<^verbatim>\<open>print\<close> calls before the loop format
  \<^verbatim>\<open>total\<close>, \<^verbatim>\<open>inferred_start - 1\<close> and \<^verbatim>\<open>start_from\<close>. The Corpus file is opened for
  appending, which creates it, only when the loop is entered.
\<close>

definition main ::
  "runtime \<Rightarrow> services \<Rightarrow> int option \<Rightarrow> ustring \<Rightarrow> world \<Rightarrow> py_exception option \<times> world" where
  "main rt sv start_arg model w =
     (case raw_sentences w of
        Missing \<Rightarrow> (Some FileNotFoundError, w)
      | Unreadable \<Rightarrow> (Some ReadError, w)
      | Text text \<Rightarrow>
          if \<not> utf8_encodable text then (Some ReadError, w)
          else
            (let sentences = read_sentences rt text;
                 n_total = int (length sentences)
             in case get_last_processed_index rt (gold w) of
                  Inl e \<Rightarrow> (Some e, w)
                | Inr last_processed \<Rightarrow>
                    (let start_from = resume_index start_arg last_processed in
                     if start_from > n_total then
                       (if within_limit rt start_from \<and> within_limit rt n_total then (None, w)
                        else (Some ValueError, w))
                     else if \<not> (within_limit rt n_total \<and> within_limit rt last_processed \<and>
                                within_limit rt start_from)
                     then (Some ValueError, w)
                     else
                       (case run_loop rt sv model n_total start_from (enumerate_from 1 sentences)
                               (w\<lparr>gold := Text (gold_text w)\<rparr>) of
                          (Exhausted, w') \<Rightarrow> (None, w')
                        | (Broke, w') \<Rightarrow> (None, w')
                        | (Aborted e, w') \<Rightarrow> (Some e, w')))))"

text \<open>
  The Record of sentence \<open>i\<close> when the Format Validator Adapter returns pass for it: the
  service answers, the answer converts, the validator runs on the Record and exits with
  status 0.
\<close>

definition validated_record ::
  "runtime \<Rightarrow> services \<Rightarrow> ustring \<Rightarrow> int \<Rightarrow> ustring \<Rightarrow> ustring option" where
  "validated_record rt sv model i sent =
     (case annotate sv (if model = [] then U ''gpt-5-mini'' else model) i sent of
        Inl msg \<Rightarrow> None
      | Inr tokens \<Rightarrow>
          (case tokens_to_conllu rt tokens of
             Inl ce \<Rightarrow> None
           | Inr conllu_str \<Rightarrow>
               if script_present sv \<and> utf8_encodable conllu_str then
                 (case run_validator sv i conllu_str of
                    Inl msg \<Rightarrow> None
                  | Inr (returncode, out, err) \<Rightarrow> if returncode = 0 then Some conllu_str else None)
               else None))"

text \<open>
  Services and states for the examples: the service answers every sentence but "bad" with
  one token that carries the sentence as its form, and the validator rejects the Record of
  sentence 3 only.
\<close>

definition example_services :: services where
  "example_services =
     \<lparr>annotate = (\<lambda>m i s. if s = U ''bad'' then Inl (U ''boom'')
                            else Inr [[U ''ID'' \<mapsto> JInt 1, U ''FORM'' \<mapsto> JStr s]]),
      script_present = True,
      script_missing_text = U ''missing'',
      encode_error_text = (\<lambda>s. U ''cannot encode''),
      run_validator = (\<lambda>i r. Inr (if i = 3 then 1 else 0, U ''out'', U ''err'')),
      error_text = (\<lambda>e. U ''conversion failed''),
      dumps = (\<lambda>ts. Some (U ''[]''))\<rparr>"

definition example_world :: world where
  "example_world =
     \<lparr>raw_sentences = Text (U '' a '' @ NL @ NL @ U ''b'' @ [13, 10] @ U ''c'' @ NL @ U ''d''),
      gold = Missing, logs = Map.empty, annotated = [], validated = []\<rparr>"


text \<open>
  A sentence commits when its integers can be printed and its Record passes; the block a
  committing sentence appends.
\<close>

definition commits :: "runtime \<Rightarrow> services \<Rightarrow> ustring \<Rightarrow> int \<Rightarrow> int \<times> ustring \<Rightarrow> bool" where
  "commits rt sv model n_total item \<longleftrightarrow>
     within_limit rt (fst item) \<and> within_limit rt n_total \<and>
     validated_record rt sv model (fst item) (snd item) \<noteq> None"

definition block_of :: "runtime \<Rightarrow> services \<Rightarrow> ustring \<Rightarrow> int \<times> ustring \<Rightarrow> ustring" where
  "block_of rt sv model item =
     (case validated_record rt sv model (fst item) (snd item) of
        None \<Rightarrow> []
      | Some r \<Rightarrow> commit_block (fst item) (snd item) r)"

section \<open>Properties of the Record Converter\<close>

subsection \<open>The conversion loop\<close>

lemma convert_loop_ok:
  "list_all2 (\<lambda>t l. token_line rt t = Inr l) ts ls \<Longrightarrow> convert_loop rt ts acc = Inr (acc @ ls)"
  by (induction ts ls arbitrary: acc rule: list_all2_induct) simp_all

lemma convert_loop_Inr:
  "convert_loop rt ts acc = Inr r \<Longrightarrow>
   \<exists>ls. list_all2 (\<lambda>t l. token_line rt t = Inr l) ts ls \<and> r = acc @ ls"
proof (induction ts arbitrary: acc)
  case Nil
  then show ?case by simp
next
  case (Cons t ts)
  from Cons.prems obtain l where l: "token_line rt t = Inr l"
    and r: "convert_loop rt ts (acc @ [l]) = Inr r"
    by (auto split: sum.splits)
  from Cons.IH [OF r] obtain ls
    where "list_all2 (\<lambda>t l. token_line rt t = Inr l) ts ls" "r = (acc @ [l]) @ ls"
    by blast
  with l have "list_all2 (\<lambda>t l. token_line rt t = Inr l) (t # ts) (l # ls) \<and> r = acc @ (l # ls)"
    by simp
  then show ?case by blast
qed

lemma convert_loop_first_error:
  "list_all2 (\<lambda>t l. token_line rt t = Inr l) pre ls \<Longrightarrow> token_line rt t = Inl e \<Longrightarrow>
   convert_loop rt (pre @ t # post) acc = Inl e"
  by (induction pre ls arbitrary: acc rule: list_all2_induct) simp_all

lemma convert_loop_fails:
  "t \<in> set ts \<Longrightarrow> token_line rt t = Inl e \<Longrightarrow> \<exists>e'. convert_loop rt ts acc = Inl e'"
  by (induction ts arbitrary: acc) (auto split: sum.splits)

lemma convert_loop_error_origin:
  "convert_loop rt ts acc = Inl e \<Longrightarrow> \<exists>t \<in> set ts. token_line rt t = Inl e"
  by (induction ts arbitrary: acc) (auto split: sum.splits)

lemma tokens_to_conllu_first_error:
  "list_all2 (\<lambda>u l. token_line rt u = Inr l) pre ls \<Longrightarrow> token_line rt t = Inl e \<Longrightarrow>
   tokens_to_conllu rt (pre @ t # post) = Inl e"
  by (simp add: tokens_to_conllu_def convert_loop_first_error)

lemma tokens_to_conllu_fails:
  "t \<in> set ts \<Longrightarrow> token_line rt t = Inl e \<Longrightarrow> \<exists>e'. tokens_to_conllu rt ts = Inl e'"
  using convert_loop_fails [of t ts rt e "[]"] by (auto simp: tokens_to_conllu_def)

lemma tokens_to_conllu_error_origin:
  "tokens_to_conllu rt ts = Inl e \<Longrightarrow> \<exists>t \<in> set ts. token_line rt t = Inl e"
  using convert_loop_error_origin [of rt ts "[]" e]
  by (auto simp: tokens_to_conllu_def split: sum.splits)

lemma token_line_lacks: "lacks_required t \<Longrightarrow> token_line rt t = Inl (MissingIdOrForm t)"
  by (auto simp: lacks_required_def token_line_def split: option.splits)

lemma py_int_not_missing: "py_int rt v \<noteq> Inl (MissingIdOrForm u)"
  by (simp add: py_int_def split: jval.splits option.splits)

lemma py_str_int_not_missing: "py_str_int rt n \<noteq> Inl (MissingIdOrForm u)"
  by (simp add: py_str_int_def)

lemma py_str_not_missing: "py_str rt v \<noteq> Inl (MissingIdOrForm u)"
  by (simp add: py_str_def py_str_int_not_missing split: jval.splits)

lemma token_line_missing_iff:
  "token_line rt t = Inl (MissingIdOrForm u) \<longleftrightarrow> lacks_required t \<and> u = t"
proof
  assume a: "token_line rt t = Inl (MissingIdOrForm u)"
  show "lacks_required t \<and> u = t"
  proof (cases "lacks_required t")
    case True
    with a token_line_lacks [of t rt] show ?thesis by simp
  next
    case False
    then obtain id_v form_v where f: "t (U ''ID'') = Some id_v" "t (U ''FORM'') = Some form_v"
      by (auto simp: lacks_required_def)
    from a have False
      unfolding token_line_def f
      using py_int_not_missing [of rt _ u] py_str_not_missing [of rt _ u]
        py_str_int_not_missing [of rt _ u]
      by (simp split: sum.splits)
    then show ?thesis ..
  qed
next
  assume "lacks_required t \<and> u = t"
  then show "token_line rt t = Inl (MissingIdOrForm u)"
    using token_line_lacks by blast
qed

subsection \<open>Decimal rendering and parsing agree\<close>

lemma digit_code_props:
  assumes "d < 10"
  shows "is_digit (48 + d)" "digit_val (48 + d) = d" "\<not> c_isspace (48 + d)"
    "48 + d \<noteq> 45" "48 + d \<noteq> 43" "48 + d < 128"
  using assms by (simp_all add: is_digit_def digit_val_def c_isspace_def)

lemma str_nat_digits: "c \<in> set (str_nat n) \<Longrightarrow> \<exists>d<10. c = 48 + d"
proof (induction n rule: str_nat.induct)
  case (1 n)
  show ?case
  proof (cases "n < 10")
    case True
    with "1.prems" show ?thesis by (auto simp: str_nat.simps [of n])
  next
    case False
    have m: "n mod 10 < 10" by simp
    from False "1.prems" have "c \<in> set (str_nat (n div 10)) \<or> c = 48 + n mod 10"
      by (auto simp: str_nat.simps [of n])
    then show ?thesis
    proof
      assume "c \<in> set (str_nat (n div 10))"
      with "1.IH" [OF False] show ?thesis by blast
    next
      assume "c = 48 + n mod 10"
      with m show ?thesis by blast
    qed
  qed
qed

lemma str_nat_is_digit: "c \<in> set (str_nat n) \<Longrightarrow> is_digit c"
  using str_nat_digits [of c n] digit_code_props(1) by blast

lemma str_nat_nonempty: "str_nat n \<noteq> []"
  by (subst str_nat.simps) simp

lemma digits_tail_all_digits:
  "\<forall>c \<in> set ds. is_digit c \<Longrightarrow>
   digits_tail acc cnt ds =
     Some (foldl (\<lambda>a c. a * 10 + digit_val c) acc ds, cnt + length ds, [])"
  by (induction ds arbitrary: acc cnt) simp_all

lemma foldl_str_nat:
  "foldl (\<lambda>a c. a * 10 + digit_val c) acc (str_nat n) = acc * 10 ^ length (str_nat n) + n"
proof (induction n arbitrary: acc rule: str_nat.induct)
  case (1 n)
  show ?case
  proof (cases "n < 10")
    case True
    then show ?thesis by (simp add: str_nat.simps [of n] digit_code_props)
  next
    case False
    have m: "n mod 10 < 10" by simp
    from False have "foldl (\<lambda>a c. a * 10 + digit_val c) acc (str_nat n)
        = (acc * 10 ^ length (str_nat (n div 10)) + n div 10) * 10 + n mod 10"
      using "1.IH" [OF False] by (simp add: str_nat.simps [of n] digit_code_props(2) [OF m])
    also have "\<dots> = acc * 10 ^ length (str_nat n) + n"
      using False by (simp add: str_nat.simps [of n] algebra_simps)
    finally show ?thesis .
  qed
qed

lemma parse_int_digits:
  assumes "s \<noteq> []" "\<forall>c \<in> set s. is_digit c" "\<not> exceeds_limit rt (length s)"
  shows "parse_int rt s = Some (int (foldl (\<lambda>a c. a * 10 + digit_val c) 0 s))"
proof -
  obtain c cs where s: "s = c # cs" using assms(1) by (cases s) auto
  have d: "is_digit c" "\<forall>x \<in> set cs. is_digit x" using assms(2) by (simp_all add: s)
  have ns: "\<not> c_isspace c" "c \<noteq> 45" "c \<noteq> 43"
    using d(1) by (auto simp: is_digit_def c_isspace_def)
  have lim: "\<not> exceeds_limit rt (Suc (length cs))"
    using assms(3) by (simp add: s)
  show ?thesis
    using ns d(1) lim digits_tail_all_digits [OF d(2), of "digit_val c" 1]
    by (simp add: parse_int_def s)
qed

lemma parse_int_minus_digits:
  assumes "s \<noteq> []" "\<forall>c \<in> set s. is_digit c" "\<not> exceeds_limit rt (length s)"
  shows "parse_int rt (45 # s) = Some (- int (foldl (\<lambda>a c. a * 10 + digit_val c) 0 s))"
proof -
  obtain c cs where s: "s = c # cs" using assms(1) by (cases s) auto
  have d: "is_digit c" "\<forall>x \<in> set cs. is_digit x" using assms(2) by (simp_all add: s)
  have lim: "\<not> exceeds_limit rt (Suc (length cs))"
    using assms(3) by (simp add: s)
  show ?thesis
    using d(1) lim digits_tail_all_digits [OF d(2), of "digit_val c" 1]
    by (simp add: parse_int_def s c_isspace_def)
qed

lemma str_nat_value: "foldl (\<lambda>a c. a * 10 + digit_val c) 0 (str_nat n) = n"
  by (simp add: foldl_str_nat)

lemma str_int_ascii: "is_ascii (str_int n)"
proof -
  have "c < 128" if "c \<in> set (str_nat m)" for c m
    using str_nat_digits [OF that] by auto
  then show ?thesis
    by (auto simp: is_ascii_def str_int_def list_all_iff)
qed

lemma int_of_string_str_int:
  assumes "within_limit rt n"
  shows "int_of_string rt (str_int n) = Some n"
proof (cases "n < 0")
  case False
  then have l: "\<not> exceeds_limit rt (length (str_nat (nat n)))"
    using assms by (simp add: within_limit_def)
  have "parse_int rt (str_nat (nat n)) = Some (int (nat n))"
    using parse_int_digits [OF str_nat_nonempty _ l] str_nat_is_digit
    by (simp only: str_nat_value) blast
  with False show ?thesis
    using str_int_ascii [of n] by (simp add: int_of_string_def str_int_def)
next
  case True
  then have l: "\<not> exceeds_limit rt (length (str_nat (nat (- n))))"
    using assms by (simp add: within_limit_def)
  have "parse_int rt (45 # str_nat (nat (- n))) = Some (- int (nat (- n)))"
    using parse_int_minus_digits [OF str_nat_nonempty _ l] str_nat_is_digit
    by (simp only: str_nat_value) blast
  with True show ?thesis
    using str_int_ascii [of n] by (simp add: int_of_string_def str_int_def)
qed

lemma py_int_str_int: "within_limit rt n \<Longrightarrow> py_int rt (JStr (str_int n)) = Inr n"
  by (simp add: py_int_def int_of_string_str_int)

lemma py_str_int_within: "within_limit rt n \<Longrightarrow> py_str_int rt n = Inr (str_int n)"
  by (simp add: py_str_int_def within_limit_def)

lemma small_within_limit: "\<bar>n\<bar> < 10 \<Longrightarrow> within_limit rt n"
proof -
  assume "\<bar>n\<bar> < 10"
  then have "nat \<bar>n\<bar> < 10" by simp
  then have "length (str_nat (nat \<bar>n\<bar>)) = 1"
    by (simp add: str_nat.simps [of "nat \<bar>n\<bar>"])
  then show ?thesis
    by (simp add: within_limit_def exceeds_limit_def)
qed

lemma str_int_0: "str_int 0 = U ''0''"
  by (simp add: str_int_def str_nat.simps U_def)

lemma str_int_small:
  "str_int 1 = U ''1''" "str_int 2 = U ''2''" "str_int 3 = U ''3''" "str_int 5 = U ''5''"
  "str_int 12 = U ''12''"
  by (simp_all add: str_int_def str_nat.simps U_def)

subsection \<open>Single tokens\<close>

lemma keys_distinct:
  "U ''LEMMA'' \<notin> {U ''ID'', U ''FORM''}" "U ''UPOS'' \<notin> {U ''ID'', U ''FORM''}"
  "U ''HEAD ID'' \<notin> {U ''ID'', U ''FORM''}" "U ''DEPREL'' \<notin> {U ''ID'', U ''FORM''}"
  "U ''ID'' \<noteq> U ''FORM''"
  by (simp_all add: U_def)

lemma absent_keys:
  assumes "dom t = {U ''ID'', U ''FORM''}"
  shows "t (U ''LEMMA'') = None" "t (U ''UPOS'') = None" "t (U ''HEAD ID'') = None"
    "t (U ''DEPREL'') = None"
proof -
  have "U ''LEMMA'' \<notin> dom t" "U ''UPOS'' \<notin> dom t" "U ''HEAD ID'' \<notin> dom t" "U ''DEPREL'' \<notin> dom t"
    unfolding assms by (rule keys_distinct)+
  then show "t (U ''LEMMA'') = None" "t (U ''UPOS'') = None" "t (U ''HEAD ID'') = None"
    "t (U ''DEPREL'') = None"
    by blast+
qed

lemma py_str_int_0: "py_str_int rt 0 = Inr (U ''0'')"
  using py_str_int_within [OF small_within_limit, of 0 rt] by (simp add: str_int_0)

lemma token_line_only_id_form:
  assumes "dom t = {U ''ID'', U ''FORM''}" "t (U ''ID'') = Some id_v" "t (U ''FORM'') = Some form_v"
    "py_int rt id_v = Inr n" "py_str_int rt n = Inr ns" "py_str rt form_v = Inr f"
  shows "token_line rt t = Inr (ns @ TAB @ f @ TAB @ py_lower rt f @ TAB @
           U ''X'' @ TAB @ U ''_'' @ TAB @ U ''_'' @ TAB @ U ''0'' @ TAB @ U ''dep'' @ TAB @
           U ''_'' @ TAB @ U ''_'')"
proof -
  note none = absent_keys [OF assms(1)]
  have head: "py_int rt (dict_get t (U ''HEAD ID'') (JInt 0)) = Inr 0"
    by (simp add: dict_get_def none py_int_def)
  have strs: "py_str rt (dict_get t (U ''LEMMA'') (JStr (py_lower rt f))) = Inr (py_lower rt f)"
    "py_str rt (dict_get t (U ''UPOS'') (JStr (U ''X''))) = Inr (U ''X'')"
    "py_str rt (dict_get t (U ''DEPREL'') (JStr (U ''dep''))) = Inr (U ''dep'')"
    by (simp_all add: dict_get_def none py_str_def)
  show ?thesis
    unfolding token_line_def
    by (simp add: assms(2-6) head strs py_str_int_0)
qed

lemma single_token_record:
  "token_line rt t = Inr l \<Longrightarrow> tokens_to_conllu rt [t] = Inr (l @ NL)"
  by (simp add: tokens_to_conllu_def)

lemma two_token_record:
  "token_line rt t1 = Inr l1 \<Longrightarrow> token_line rt t2 = Inr l2 \<Longrightarrow>
   tokens_to_conllu rt [t1, t2] = Inr (l1 @ NL @ l2 @ NL)"
  by (simp add: tokens_to_conllu_def)

lemma dom_id_form: "dom [U ''ID'' \<mapsto> a, U ''FORM'' \<mapsto> b] = {U ''ID'', U ''FORM''}"
  by auto

lemma id_form_lookup:
  "[U ''ID'' \<mapsto> a, U ''FORM'' \<mapsto> b] (U ''ID'') = Some a"
  "[U ''ID'' \<mapsto> a, U ''FORM'' \<mapsto> b] (U ''FORM'') = Some b"
  using keys_distinct(5) by simp_all

lemma py_lower_kitob: "py_lower rt (U ''kitob'') = U ''kitob''"
  by (simp add: py_lower_def is_ascii_def ascii_lower_def U_def)

lemma py_str_int_1: "py_str_int rt 1 = Inr (U ''1'')"
  using py_str_int_within [OF small_within_limit, of 1 rt] by (simp add: str_int_small)

lemma kitob_line:
  "token_line rt [U ''ID'' \<mapsto> JInt 1, U ''FORM'' \<mapsto> JStr (U ''kitob'')] =
     Inr (U ''1'' @ TAB @ U ''kitob'' @ TAB @ U ''kitob'' @ TAB @ U ''X'' @ TAB @ U ''_'' @ TAB @
          U ''_'' @ TAB @ U ''0'' @ TAB @ U ''dep'' @ TAB @ U ''_'' @ TAB @ U ''_'')"
proof -
  have p: "py_int rt (JInt 1) = Inr 1" by (simp add: py_int_def)
  have s: "py_str rt (JStr (U ''kitob'')) = Inr (U ''kitob'')" by (simp add: py_str_def)
  show ?thesis
    using token_line_only_id_form [OF dom_id_form id_form_lookup p py_str_int_1 s]
    unfolding py_lower_kitob .
qed





lemma no_newline_filter: "10 \<notin> set x \<Longrightarrow> filter (\<lambda>c. c = 10) x = []"
  by (induction x) auto

lemma count_newlines_join:
  "ls \<noteq> [] \<Longrightarrow> \<forall>l \<in> set ls. 10 \<notin> set l \<Longrightarrow>
   length (filter (\<lambda>c. c = 10) (join NL ls @ NL)) = length ls"
proof (induction NL ls rule: join.induct)
  case 1
  then show ?case by simp
next
  case (2 x)
  then have "filter (\<lambda>c. c = 10) x = []"
    by (simp add: no_newline_filter)
  then show ?case by (simp add: NL_def)
next
  case (3 x y ys)
  then have "filter (\<lambda>c. c = 10) x = []"
    by (simp add: no_newline_filter)
  with 3 show ?case by (simp add: NL_def)
qed

lemma newline_form_line:
  "token_line rt [U ''ID'' \<mapsto> JInt 1, U ''FORM'' \<mapsto> JStr (U ''a'' @ NL @ U ''b'')] =
     Inr (U ''1'' @ TAB @ (U ''a'' @ NL @ U ''b'') @ TAB @ (U ''a'' @ NL @ U ''b'') @ TAB @
          U ''X'' @ TAB @ U ''_'' @ TAB @ U ''_'' @ TAB @ U ''0'' @ TAB @ U ''dep'' @ TAB @
          U ''_'' @ TAB @ U ''_'')"
proof -
  have p: "py_int rt (JInt 1) = Inr 1" by (simp add: py_int_def)
  have s: "py_str rt (JStr (U ''a'' @ NL @ U ''b'')) = Inr (U ''a'' @ NL @ U ''b'')"
    by (simp add: py_str_def)
  have l: "py_lower rt (U ''a'' @ NL @ U ''b'') = U ''a'' @ NL @ U ''b''"
    by (simp add: py_lower_def is_ascii_def ascii_lower_def U_def NL_def)
  show ?thesis
    using token_line_only_id_form [OF dom_id_form id_form_lookup p py_str_int_1 s]
    unfolding l .
qed


lemma kitob_line_no_newline:
  "10 \<notin> set (U ''1'' @ TAB @ U ''kitob'' @ TAB @ U ''kitob'' @ TAB @ U ''X'' @ TAB @ U ''_'' @ TAB @
          U ''_'' @ TAB @ U ''0'' @ TAB @ U ''dep'' @ TAB @ U ''_'' @ TAB @ U ''_'')"
  by (simp add: U_def TAB_def)


lemma malformed_token_error_iff:
  "malformed_token_error r \<longleftrightarrow> (\<exists>u. r = Inl (MissingIdOrForm u))"
  by (auto simp: malformed_token_error_def split: sum.splits conv_error.splits)

lemma null_id_line:
  "token_line rt [U ''ID'' \<mapsto> JNull, U ''FORM'' \<mapsto> JStr (U ''a'')] = Inl (IntTypeError JNull)"
  by (simp add: token_line_def keys_distinct(5) py_int_def)

lemma only_id_lacks: "lacks_required [U ''ID'' \<mapsto> JInt 2]"
  using keys_distinct(5) by (simp add: lacks_required_def)


lemma kitob_not_lacking:
  "\<not> lacks_required [U ''ID'' \<mapsto> JInt 1, U ''FORM'' \<mapsto> JStr (U ''kitob'')]"
  by (simp add: lacks_required_def id_form_lookup)


lemma token_line_bad_id:
  "t (U ''ID'') = Some id_v \<Longrightarrow> t (U ''FORM'') = Some form_v \<Longrightarrow> py_int rt id_v = Inl e \<Longrightarrow>
   token_line rt t = Inl e"
  by (simp add: token_line_def)

lemma token_line_bad_head:
  "t (U ''ID'') = Some id_v \<Longrightarrow> t (U ''FORM'') = Some form_v \<Longrightarrow> t (U ''HEAD ID'') = Some h \<Longrightarrow>
   py_int rt h = Inl e \<Longrightarrow> \<exists>e'. token_line rt t = Inl e'"
  by (simp add: token_line_def dict_get_def split: sum.splits)

lemma token_line_decimal_strings:
  assumes "t (U ''ID'') = Some (JStr (str_int n))" "t (U ''FORM'') = Some (JStr f)"
    "t (U ''HEAD ID'') = Some (JStr (str_int k))" "within_limit rt n" "within_limit rt k"
    "py_str rt (dict_get t (U ''LEMMA'') (JStr (py_lower rt f))) = Inr lemma"
    "py_str rt (dict_get t (U ''UPOS'') (JStr (U ''X''))) = Inr upos"
    "py_str rt (dict_get t (U ''DEPREL'') (JStr (U ''dep''))) = Inr deprel"
  shows "token_line rt t =
     Inr (join TAB [str_int n, f, lemma, upos, U ''_'', U ''_'', str_int k, deprel, U ''_'', U ''_''])"
proof -
  have hd: "py_int rt (dict_get t (U ''HEAD ID'') (JInt 0)) = Inr k"
    by (simp add: dict_get_def assms(3) py_int_str_int [OF assms(5)])
  have f: "py_str rt (JStr f) = Inr f" by (simp add: py_str_def)
  show ?thesis
    unfolding token_line_def
    by (simp add: assms(1,2,6,7,8) py_int_str_int [OF assms(4)] hd f
        py_str_int_within [OF assms(4)] py_str_int_within [OF assms(5)] del: join.simps)
qed

lemma short_within_limit: "length (str_nat (nat \<bar>n\<bar>)) \<le> 640 \<Longrightarrow> within_limit rt n"
  by (simp add: within_limit_def exceeds_limit_def)

lemma py_int_x: "py_int rt (JStr (U ''x'')) = Inl (IntValueError (U ''x''))"
  by (simp add: py_int_def int_of_string_def parse_int_def is_ascii_def U_def c_isspace_def
      is_digit_def)

lemma long_literal_rejected:
  "int_of_string example_runtime (49 # replicate 4300 49) = None"
proof -
  have a: "is_ascii (49 # replicate 4300 49)"
    by (simp add: is_ascii_def list_all_iff)
  have d: "\<forall>c \<in> set (replicate 4300 49). is_digit c"
    by (simp add: is_digit_def)
  have t: "digits_tail (digit_val 49) (Suc 0) (replicate 4300 49) =
      Some (foldl (\<lambda>a c. a * 10 + digit_val c) (digit_val 49) (replicate 4300 49), 4301, [])"
    using digits_tail_all_digits [OF d, of "digit_val 49" "Suc 0"] by simp
  have e: "exceeds_limit example_runtime 4301"
    by (simp add: exceeds_limit_def example_runtime_def)
  have s: "\<not> c_isspace 49" "is_digit 49"
    by (simp_all add: c_isspace_def is_digit_def)
  show ?thesis
    unfolding int_of_string_def parse_int_def
    by (simp add: a s t e)
qed


lemma three_key_lookup:
  "[U ''ID'' \<mapsto> a, U ''FORM'' \<mapsto> b, U ''HEAD ID'' \<mapsto> c] (U ''ID'') = Some a"
  "[U ''ID'' \<mapsto> a, U ''FORM'' \<mapsto> b, U ''HEAD ID'' \<mapsto> c] (U ''FORM'') = Some b"
  "[U ''ID'' \<mapsto> a, U ''FORM'' \<mapsto> b, U ''HEAD ID'' \<mapsto> c] (U ''HEAD ID'') = Some c"
  "[U ''ID'' \<mapsto> a, U ''FORM'' \<mapsto> b, U ''HEAD ID'' \<mapsto> c] (U ''LEMMA'') = None"
  "[U ''ID'' \<mapsto> a, U ''FORM'' \<mapsto> b, U ''HEAD ID'' \<mapsto> c] (U ''UPOS'') = None"
  "[U ''ID'' \<mapsto> a, U ''FORM'' \<mapsto> b, U ''HEAD ID'' \<mapsto> c] (U ''DEPREL'') = None"
  by (simp_all add: U_def)





text \<open>
  Claim C10 as stated (every sequence that converts gives one line per token) does not
  hold: the columns are copied as they are, so a surface form that contains a newline
  converts, and here one token gives a Record of three lines.
\<close>

theorem one_line_per_token_counterexample:
  "tokens_to_conllu example_runtime
     [[U ''ID'' \<mapsto> JInt 1, U ''FORM'' \<mapsto> JStr (U ''a'' @ NL @ U ''b'')]] =
     Inr (U ''1'' @ TAB @ (U ''a'' @ NL @ U ''b'') @ TAB @ (U ''a'' @ NL @ U ''b'') @ TAB @
          U ''X'' @ TAB @ U ''_'' @ TAB @ U ''_'' @ TAB @ U ''0'' @ TAB @ U ''dep'' @ TAB @
          U ''_'' @ TAB @ U ''_'' @ NL)
   \<and> length (filter (\<lambda>c. c = 10)
        (U ''1'' @ TAB @ (U ''a'' @ NL @ U ''b'') @ TAB @ (U ''a'' @ NL @ U ''b'') @ TAB @
          U ''X'' @ TAB @ U ''_'' @ TAB @ U ''_'' @ TAB @ U ''0'' @ TAB @ U ''dep'' @ TAB @
          U ''_'' @ TAB @ U ''_'' @ NL)) = 3"
proof (rule conjI)
  show "tokens_to_conllu example_runtime
     [[U ''ID'' \<mapsto> JInt 1, U ''FORM'' \<mapsto> JStr (U ''a'' @ NL @ U ''b'')]] =
     Inr (U ''1'' @ TAB @ (U ''a'' @ NL @ U ''b'') @ TAB @ (U ''a'' @ NL @ U ''b'') @ TAB @
          U ''X'' @ TAB @ U ''_'' @ TAB @ U ''_'' @ TAB @ U ''0'' @ TAB @ U ''dep'' @ TAB @
          U ''_'' @ TAB @ U ''_'' @ NL)"
    using single_token_record [OF newline_form_line, of example_runtime]
    by (simp only: append_assoc)
next
  show "length (filter (\<lambda>c. c = 10)
        (U ''1'' @ TAB @ (U ''a'' @ NL @ U ''b'') @ TAB @ (U ''a'' @ NL @ U ''b'') @ TAB @
          U ''X'' @ TAB @ U ''_'' @ TAB @ U ''_'' @ TAB @ U ''0'' @ TAB @ U ''dep'' @ TAB @
          U ''_'' @ TAB @ U ''_'' @ NL)) = 3"
    by (simp add: U_def TAB_def NL_def)
qed


text \<open>
  Claim C10, amended (empty sequence, shape of the output). For the empty token sequence the
  converter does not fail and returns the Record that is exactly one newline character.
  Whenever a sequence converts, the Record is the text of each token's ten tab-joined
  columns, the texts joined by newlines, with one trailing newline. When the sequence is
  not empty and no such text contains a newline character, the Record has exactly one line
  per token.
\<close>

theorem empty_sequence_and_shape:
  "tokens_to_conllu rt [] = Inr [10]
   \<and> (tokens_to_conllu rt ts = Inr r \<longrightarrow>
        (\<exists>ls. length ls = length ts \<and> list_all2 (\<lambda>t l. token_line rt t = Inr l) ts ls \<and>
              r = join NL ls @ NL \<and>
              (ts \<noteq> [] \<and> (\<forall>l \<in> set ls. 10 \<notin> set l) \<longrightarrow>
                 length (filter (\<lambda>c. c = 10) r) = length ts)))"
proof (rule conjI)
  show "tokens_to_conllu rt [] = Inr [10]"
    by (simp add: tokens_to_conllu_def NL_def)
next
  show "tokens_to_conllu rt ts = Inr r \<longrightarrow>
        (\<exists>ls. length ls = length ts \<and> list_all2 (\<lambda>t l. token_line rt t = Inr l) ts ls \<and>
              r = join NL ls @ NL \<and>
              (ts \<noteq> [] \<and> (\<forall>l \<in> set ls. 10 \<notin> set l) \<longrightarrow>
                 length (filter (\<lambda>c. c = 10) r) = length ts))"
  proof
    assume "tokens_to_conllu rt ts = Inr r"
    then obtain lines where l: "convert_loop rt ts [] = Inr lines" and r: "r = join NL lines @ NL"
      by (auto simp: tokens_to_conllu_def split: sum.splits)
    from convert_loop_Inr [OF l] have a: "list_all2 (\<lambda>t l. token_line rt t = Inr l) ts lines"
      by simp
    then have n: "length lines = length ts"
      by (simp add: list_all2_lengthD)
    have c: "ts \<noteq> [] \<and> (\<forall>l \<in> set lines. 10 \<notin> set l) \<longrightarrow>
        length (filter (\<lambda>c. c = 10) r) = length ts"
    proof
      assume h: "ts \<noteq> [] \<and> (\<forall>l \<in> set lines. 10 \<notin> set l)"
      with n have "lines \<noteq> []" by auto
      from count_newlines_join [OF this] h n r
      show "length (filter (\<lambda>c. c = 10) r) = length ts" by simp
    qed
    from n a r c show "\<exists>ls. length ls = length ts \<and> list_all2 (\<lambda>t l. token_line rt t = Inr l) ts ls \<and>
              r = join NL ls @ NL \<and>
              (ts \<noteq> [] \<and> (\<forall>l \<in> set ls. 10 \<notin> set l) \<longrightarrow>
                 length (filter (\<lambda>c. c = 10) r) = length ts)"
      by blast
  qed
qed

theorem empty_sequence_and_shape_witness:
  "length (filter (\<lambda>c. c = 10)
     ((U ''1'' @ TAB @ U ''kitob'' @ TAB @ U ''kitob'' @ TAB @ U ''X'' @ TAB @ U ''_'' @ TAB @
          U ''_'' @ TAB @ U ''0'' @ TAB @ U ''dep'' @ TAB @ U ''_'' @ TAB @ U ''_'') @ NL @
      (U ''1'' @ TAB @ U ''kitob'' @ TAB @ U ''kitob'' @ TAB @ U ''X'' @ TAB @ U ''_'' @ TAB @
          U ''_'' @ TAB @ U ''0'' @ TAB @ U ''dep'' @ TAB @ U ''_'' @ TAB @ U ''_'') @ NL)) =
   length [[U ''ID'' \<mapsto> JInt 1, U ''FORM'' \<mapsto> JStr (U ''kitob'')],
           [U ''ID'' \<mapsto> JInt 1, U ''FORM'' \<mapsto> JStr (U ''kitob'')]]"
proof -
  let ?k = "[U ''ID'' \<mapsto> JInt 1, U ''FORM'' \<mapsto> JStr (U ''kitob'')]"
  define L where "L = U ''1'' @ TAB @ U ''kitob'' @ TAB @ U ''kitob'' @ TAB @ U ''X'' @ TAB @ U ''_'' @ TAB @
          U ''_'' @ TAB @ U ''0'' @ TAB @ U ''dep'' @ TAB @ U ''_'' @ TAB @ U ''_''"
  have kl: "token_line example_runtime ?k = Inr L"
    unfolding L_def by (rule kitob_line)
  have nl: "10 \<notin> set L"
    unfolding L_def by (rule kitob_line_no_newline)
  have r: "tokens_to_conllu example_runtime [?k, ?k] = Inr (L @ NL @ L @ NL)"
    by (rule two_token_record [OF kl kl])
  from empty_sequence_and_shape [of example_runtime "[?k, ?k]" "L @ NL @ L @ NL",
      THEN conjunct2, THEN mp, OF r]
  obtain ls where la: "list_all2 (\<lambda>t l. token_line example_runtime t = Inr l) [?k, ?k] ls"
    and c: "[?k, ?k] \<noteq> [] \<and> (\<forall>l \<in> set ls. 10 \<notin> set l) \<longrightarrow>
            length (filter (\<lambda>c. c = 10) (L @ NL @ L @ NL)) = length [?k, ?k]"
    by blast
  from la have "ls = [L, L]"
    using kl by (auto simp: list_all2_Cons1)
  with nl have "[?k, ?k] \<noteq> [] \<and> (\<forall>l \<in> set ls. 10 \<notin> set l)"
    by simp
  with c have "length (filter (\<lambda>c. c = 10) (L @ NL @ L @ NL)) = length [?k, ?k]"
    by (rule mp)
  then show ?thesis
    unfolding L_def .
qed


text \<open>
  Claim C7 as stated (every sequence with an element that lacks \<^verbatim>\<open>ID\<close> or \<^verbatim>\<open>FORM\<close> fails
  with the missing-field error) does not hold: the loop converts the tokens in order, so an
  earlier token whose \<^verbatim>\<open>ID\<close> is \<^verbatim>\<open>null\<close> raises the \<^verbatim>\<open>TypeError\<close> of \<^verbatim>\<open>int\<close> before the
  token without \<^verbatim>\<open>FORM\<close> is looked at.
\<close>

theorem missing_field_error_counterexample:
  "lacks_required [U ''ID'' \<mapsto> JInt 2] \<and>
   tokens_to_conllu example_runtime
     [[U ''ID'' \<mapsto> JNull, U ''FORM'' \<mapsto> JStr (U ''a'')], [U ''ID'' \<mapsto> JInt 2]]
     = Inl (IntTypeError JNull) \<and>
   \<not> malformed_token_error
       (tokens_to_conllu example_runtime
          [[U ''ID'' \<mapsto> JNull, U ''FORM'' \<mapsto> JStr (U ''a'')], [U ''ID'' \<mapsto> JInt 2]])"
proof -
  have c: "tokens_to_conllu example_runtime
     [[U ''ID'' \<mapsto> JNull, U ''FORM'' \<mapsto> JStr (U ''a'')], [U ''ID'' \<mapsto> JInt 2]]
     = Inl (IntTypeError JNull)"
    using tokens_to_conllu_first_error [of example_runtime "[]" "[]", OF _ null_id_line] by simp
  have "\<not> malformed_token_error (Inl (IntTypeError JNull))"
    by (simp add: malformed_token_error_def)
  with only_id_lacks c show ?thesis by simp
qed


text \<open>
  Claim C7, amended (missing-field conversion failure). If some element lacks \<^verbatim>\<open>ID\<close> or
  \<^verbatim>\<open>FORM\<close>, the conversion fails and returns no output at all. The error raised is always
  that of the first element, in order, that fails to convert: it is the missing-field error
  of an element that lacks a field when every element before it converts, and the error of
  an earlier element otherwise. If every
  element carries both fields, the missing-field error is never raised.
\<close>

theorem missing_field_failure:
  "((\<exists>t \<in> set ts. lacks_required t) \<longrightarrow> (\<exists>e. tokens_to_conllu rt ts = Inl e))
   \<and> (list_all2 (\<lambda>u l. token_line rt u = Inr l) pre ls \<and> token_line rt t = Inl e \<longrightarrow>
        tokens_to_conllu rt (pre @ t # post) = Inl e)
   \<and> (list_all2 (\<lambda>u l. token_line rt u = Inr l) pre ls \<and> lacks_required t \<longrightarrow>
        tokens_to_conllu rt (pre @ t # post) = Inl (MissingIdOrForm t))
   \<and> (tokens_to_conllu rt ts = Inl e \<longrightarrow>
        (\<exists>pre t post ls. ts = pre @ t # post \<and>
           list_all2 (\<lambda>u l. token_line rt u = Inr l) pre ls \<and> token_line rt t = Inl e))
   \<and> ((\<forall>t \<in> set ts. \<not> lacks_required t) \<longrightarrow> \<not> malformed_token_error (tokens_to_conllu rt ts))"
proof (intro conjI impI)
  assume "\<exists>t \<in> set ts. lacks_required t"
  then obtain t where "t \<in> set ts" "token_line rt t = Inl (MissingIdOrForm t)"
    using token_line_lacks by blast
  then show "\<exists>e. tokens_to_conllu rt ts = Inl e"
    by (rule tokens_to_conllu_fails)
next
  assume "list_all2 (\<lambda>u l. token_line rt u = Inr l) pre ls \<and> token_line rt t = Inl e"
  then show "tokens_to_conllu rt (pre @ t # post) = Inl e"
    using tokens_to_conllu_first_error by blast
next
  assume "list_all2 (\<lambda>u l. token_line rt u = Inr l) pre ls \<and> lacks_required t"
  then show "tokens_to_conllu rt (pre @ t # post) = Inl (MissingIdOrForm t)"
    using tokens_to_conllu_first_error [of rt pre ls t "MissingIdOrForm t" post]
      token_line_lacks [of t rt]
    by simp
next
  assume a: "tokens_to_conllu rt ts = Inl e"
  have "\<exists>pre t post ls. us = pre @ t # post \<and>
           list_all2 (\<lambda>u l. token_line rt u = Inr l) pre ls \<and> token_line rt t = Inl e"
    if "convert_loop rt us acc = Inl e" for us acc
    using that
  proof (induction us arbitrary: acc)
    case Nil
    then show ?case by simp
  next
    case (Cons u us)
    show ?case
    proof (cases "token_line rt u")
      case (Inl e')
      with Cons.prems have "e' = e" by simp
      with Inl have "u # us = [] @ u # us \<and> list_all2 (\<lambda>u l. token_line rt u = Inr l) [] [] \<and>
        token_line rt u = Inl e" by simp
      then show ?thesis by blast
    next
      case (Inr l)
      with Cons.prems have "convert_loop rt us (acc @ [l]) = Inl e" by simp
      from Cons.IH [OF this] obtain pre t post ls where
        p: "us = pre @ t # post" "list_all2 (\<lambda>u l. token_line rt u = Inr l) pre ls"
        "token_line rt t = Inl e" by blast
      with Inr have "u # us = (u # pre) @ t # post \<and>
        list_all2 (\<lambda>u l. token_line rt u = Inr l) (u # pre) (l # ls) \<and> token_line rt t = Inl e"
        by simp
      then show ?thesis by blast
    qed
  qed
  moreover from a have "convert_loop rt ts [] = Inl e"
    by (simp add: tokens_to_conllu_def split: sum.splits)
  ultimately show "\<exists>pre t post ls. ts = pre @ t # post \<and>
           list_all2 (\<lambda>u l. token_line rt u = Inr l) pre ls \<and> token_line rt t = Inl e"
    by blast
next
  assume all: "\<forall>t \<in> set ts. \<not> lacks_required t"
  show "\<not> malformed_token_error (tokens_to_conllu rt ts)"
  proof
    assume "malformed_token_error (tokens_to_conllu rt ts)"
    then obtain u where "tokens_to_conllu rt ts = Inl (MissingIdOrForm u)"
      unfolding malformed_token_error_iff by blast
    from tokens_to_conllu_error_origin [OF this]
    obtain t where "t \<in> set ts" "token_line rt t = Inl (MissingIdOrForm u)" by blast
    with all show False
      unfolding token_line_missing_iff by blast
  qed
qed

theorem missing_field_failure_witness:
  "(\<exists>e. tokens_to_conllu example_runtime [[U ''ID'' \<mapsto> JInt 2]] = Inl e)
   \<and> tokens_to_conllu example_runtime
       ([[U ''ID'' \<mapsto> JInt 1, U ''FORM'' \<mapsto> JStr (U ''kitob'')]] @
        [U ''ID'' \<mapsto> JNull, U ''FORM'' \<mapsto> JStr (U ''a'')] # [[U ''ID'' \<mapsto> JInt 2]])
       = Inl (IntTypeError JNull)
   \<and> tokens_to_conllu example_runtime
       ([[U ''ID'' \<mapsto> JInt 1, U ''FORM'' \<mapsto> JStr (U ''kitob'')]] @ [U ''ID'' \<mapsto> JInt 2] # [])
       = Inl (MissingIdOrForm [U ''ID'' \<mapsto> JInt 2])
   \<and> (\<exists>pre t post ls.
         [[U ''ID'' \<mapsto> JInt 1, U ''FORM'' \<mapsto> JStr (U ''kitob'')]] @
           [U ''ID'' \<mapsto> JNull, U ''FORM'' \<mapsto> JStr (U ''a'')] # [[U ''ID'' \<mapsto> JInt 2]]
           = pre @ t # post \<and>
         list_all2 (\<lambda>u l. token_line example_runtime u = Inr l) pre ls \<and>
         token_line example_runtime t = Inl (IntTypeError JNull))
   \<and> \<not> malformed_token_error
         (tokens_to_conllu example_runtime [[U ''ID'' \<mapsto> JInt 1, U ''FORM'' \<mapsto> JStr (U ''kitob'')]])"
proof -
  let ?k = "[U ''ID'' \<mapsto> JInt 1, U ''FORM'' \<mapsto> JStr (U ''kitob'')]"
  let ?m = "[U ''ID'' \<mapsto> JInt 2]"
  let ?n = "[U ''ID'' \<mapsto> JNull, U ''FORM'' \<mapsto> JStr (U ''a'')]"
  have a: "\<exists>t \<in> set [?m]. lacks_required t"
    using only_id_lacks by simp
  obtain kl where kl: "token_line example_runtime ?k = Inr kl"
    using kitob_line by blast
  have pre: "list_all2 (\<lambda>u l. token_line example_runtime u = Inr l) [?k] [kl]"
    using kl by simp
  have b: "list_all2 (\<lambda>u l. token_line example_runtime u = Inr l) [?k] [kl] \<and>
           token_line example_runtime ?n = Inl (IntTypeError JNull)"
    using pre null_id_line by (intro conjI)
  have c: "list_all2 (\<lambda>u l. token_line example_runtime u = Inr l) [?k] [kl] \<and> lacks_required ?m"
    using pre only_id_lacks by (intro conjI)
  have e: "\<forall>t \<in> set [?k]. \<not> lacks_required t"
    using kitob_not_lacking by simp
  note m = missing_field_failure [where rt = example_runtime]
  have 1: "\<exists>e. tokens_to_conllu example_runtime [?m] = Inl e"
    using m [of "[?m]", THEN conjunct1, THEN mp, OF a] .
  have 2: "tokens_to_conllu example_runtime ([?k] @ ?n # [?m]) = Inl (IntTypeError JNull)"
    using m [of _ "[?k]" "[kl]" ?n "IntTypeError JNull" "[?m]",
        THEN conjunct2, THEN conjunct1, THEN mp, OF b] .
  have 3: "tokens_to_conllu example_runtime ([?k] @ ?m # []) = Inl (MissingIdOrForm ?m)"
    using m [of _ "[?k]" "[kl]" ?m _ "[]",
        THEN conjunct2, THEN conjunct2, THEN conjunct1, THEN mp, OF c] .
  have 4: "\<exists>pre t post ls. [?k] @ ?n # [?m] = pre @ t # post \<and>
         list_all2 (\<lambda>u l. token_line example_runtime u = Inr l) pre ls \<and>
         token_line example_runtime t = Inl (IntTypeError JNull)"
    using m [of "[?k] @ ?n # [?m]" _ _ _ "IntTypeError JNull",
        THEN conjunct2, THEN conjunct2, THEN conjunct2, THEN conjunct1, THEN mp, OF 2] .
  have 5: "\<not> malformed_token_error (tokens_to_conllu example_runtime [?k])"
    using m [of "[?k]", THEN conjunct2, THEN conjunct2, THEN conjunct2, THEN conjunct2, THEN mp, OF e] .
  from 1 2 3 4 5 show ?thesis by (intro conjI)
qed


text \<open>
  Claim C9 as stated (integers given as decimal strings are accepted) does not hold for
  every decimal string: under the default limit of 4300 digits the string of 4301 digits
  \<^verbatim>\<open>1\<close> is rejected by \<^verbatim>\<open>int\<close> with a \<^verbatim>\<open>ValueError\<close>, and the conversion of a token with this
  \<^verbatim>\<open>ID\<close> fails.
\<close>

theorem decimal_string_counterexample:
  "list_all is_digit (49 # replicate 4300 49)
   \<and> py_int example_runtime (JStr (49 # replicate 4300 49)) =
       Inl (IntValueError (49 # replicate 4300 49))
   \<and> token_line example_runtime
       [U ''ID'' \<mapsto> JStr (49 # replicate 4300 49), U ''FORM'' \<mapsto> JStr (U ''a'')] =
       Inl (IntValueError (49 # replicate 4300 49))"
proof -
  have d: "list_all is_digit (49 # replicate 4300 49)"
    by (simp add: list_all_iff is_digit_def)
  have p: "py_int example_runtime (JStr (49 # replicate 4300 49)) =
       Inl (IntValueError (49 # replicate 4300 49))"
    by (simp add: py_int_def long_literal_rejected)
  have "token_line example_runtime
       [U ''ID'' \<mapsto> JStr (49 # replicate 4300 49), U ''FORM'' \<mapsto> JStr (U ''a'')] =
       Inl (IntValueError (49 # replicate 4300 49))"
    using token_line_bad_id [OF id_form_lookup p] .
  with d p show ?thesis by (intro conjI)
qed


text \<open>
  Claim C9, amended (positions that are not integers). If some element carries both \<^verbatim>\<open>ID\<close>
  and \<^verbatim>\<open>FORM\<close>, but its \<^verbatim>\<open>ID\<close>, or its \<^verbatim>\<open>HEAD ID\<close> when present, is not accepted by
  \<^verbatim>\<open>int\<close> (the string "x" is not), the conversion raises although no required field is
  missing. An integer given as a decimal string is accepted and rendered as that integer
  when its number of digits is within the digit limit of the interpreter; a string of at
  most 640 digits is within the limit under every setting.
\<close>

theorem non_integer_position_fails:
  "(t \<in> set ts \<and> t (U ''ID'') = Some id_v \<and> t (U ''FORM'') = Some form_v \<and>
      (py_int rt id_v = Inl e \<or> (t (U ''HEAD ID'') = Some h \<and> py_int rt h = Inl e)) \<longrightarrow>
      \<not> lacks_required t \<and> (\<exists>e'. tokens_to_conllu rt ts = Inl e'))
   \<and> py_int rt (JStr (U ''x'')) = Inl (IntValueError (U ''x''))
   \<and> (length (str_nat (nat \<bar>n\<bar>)) \<le> 640 \<longrightarrow> within_limit rt n)
   \<and> (within_limit rt n \<longrightarrow> py_int rt (JStr (str_int n)) = Inr n)
   \<and> (u (U ''ID'') = Some (JStr (str_int n)) \<and> u (U ''FORM'') = Some (JStr f) \<and>
       u (U ''HEAD ID'') = Some (JStr (str_int k)) \<and> within_limit rt n \<and> within_limit rt k \<and>
       py_str rt (dict_get u (U ''LEMMA'') (JStr (py_lower rt f))) = Inr lemma \<and>
       py_str rt (dict_get u (U ''UPOS'') (JStr (U ''X''))) = Inr upos \<and>
       py_str rt (dict_get u (U ''DEPREL'') (JStr (U ''dep''))) = Inr deprel \<longrightarrow>
       token_line rt u =
         Inr (join TAB [str_int n, f, lemma, upos, U ''_'', U ''_'', str_int k, deprel,
                        U ''_'', U ''_'']))"
proof (intro conjI impI)
  assume h: "t \<in> set ts \<and> t (U ''ID'') = Some id_v \<and> t (U ''FORM'') = Some form_v \<and>
      (py_int rt id_v = Inl e \<or> (t (U ''HEAD ID'') = Some h \<and> py_int rt h = Inl e))"
  then show "\<not> lacks_required t"
    by (simp add: lacks_required_def)
  from h have "\<exists>e'. token_line rt t = Inl e'"
    using token_line_bad_id [of t id_v form_v rt e] token_line_bad_head [of t id_v form_v h rt e]
    by blast
  with h show "\<exists>e'. tokens_to_conllu rt ts = Inl e'"
    using tokens_to_conllu_fails by blast
next
  show "py_int rt (JStr (U ''x'')) = Inl (IntValueError (U ''x''))"
    by (rule py_int_x)
next
  assume "length (str_nat (nat \<bar>n\<bar>)) \<le> 640"
  then show "within_limit rt n"
    by (rule short_within_limit)
next
  assume "within_limit rt n"
  then show "py_int rt (JStr (str_int n)) = Inr n"
    by (rule py_int_str_int)
next
  assume "u (U ''ID'') = Some (JStr (str_int n)) \<and> u (U ''FORM'') = Some (JStr f) \<and>
       u (U ''HEAD ID'') = Some (JStr (str_int k)) \<and> within_limit rt n \<and> within_limit rt k \<and>
       py_str rt (dict_get u (U ''LEMMA'') (JStr (py_lower rt f))) = Inr lemma \<and>
       py_str rt (dict_get u (U ''UPOS'') (JStr (U ''X''))) = Inr upos \<and>
       py_str rt (dict_get u (U ''DEPREL'') (JStr (U ''dep''))) = Inr deprel"
  then show "token_line rt u =
         Inr (join TAB [str_int n, f, lemma, upos, U ''_'', U ''_'', str_int k, deprel,
                        U ''_'', U ''_''])"
    using token_line_decimal_strings [of u n f k rt "lemma" upos deprel] by blast
qed

theorem non_integer_position_fails_witness:
  "(\<exists>e'. tokens_to_conllu example_runtime [[U ''ID'' \<mapsto> JStr (U ''x''), U ''FORM'' \<mapsto> JStr (U ''a'')]]
           = Inl e')
   \<and> py_int example_runtime (JStr (U ''3'')) = Inr 3
   \<and> token_line example_runtime
       [U ''ID'' \<mapsto> JStr (U ''3''), U ''FORM'' \<mapsto> JStr (U ''a''), U ''HEAD ID'' \<mapsto> JStr (U ''2'')] =
       Inr (join TAB [U ''3'', U ''a'', U ''a'', U ''X'', U ''_'', U ''_'', U ''2'', U ''dep'',
                      U ''_'', U ''_''])"
proof -
  let ?t = "[U ''ID'' \<mapsto> JStr (U ''x''), U ''FORM'' \<mapsto> JStr (U ''a'')]"
  let ?u = "[U ''ID'' \<mapsto> JStr (U ''3''), U ''FORM'' \<mapsto> JStr (U ''a''), U ''HEAD ID'' \<mapsto> JStr (U ''2'')]"
  note nip = non_integer_position_fails [where rt = example_runtime]
  have a: "?t \<in> set [?t] \<and> ?t (U ''ID'') = Some (JStr (U ''x'')) \<and> ?t (U ''FORM'') = Some (JStr (U ''a'')) \<and>
      (py_int example_runtime (JStr (U ''x'')) = Inl (IntValueError (U ''x'')) \<or>
       (?t (U ''HEAD ID'') = Some JNull \<and> py_int example_runtime JNull = Inl (IntValueError (U ''x''))))"
    using py_int_x [of example_runtime] id_form_lookup [of "JStr (U ''x'')" "JStr (U ''a'')"] by simp
  have first: "\<exists>e'. tokens_to_conllu example_runtime [?t] = Inl e'"
    using nip [of ?t "[?t]" "JStr (U ''x'')" "JStr (U ''a'')" "IntValueError (U ''x'')" JNull,
        THEN conjunct1, THEN mp, OF a]
    by (rule conjunct2)
  have l3: "length (str_nat (nat \<bar>3\<bar>)) \<le> 640" "length (str_nat (nat \<bar>2\<bar>)) \<le> 640"
    by (simp_all add: str_nat.simps)
  have w3: "within_limit example_runtime 3"
    using nip [of _ _ _ _ _ _ 3, THEN conjunct2, THEN conjunct2, THEN conjunct1, THEN mp, OF l3(1)] .
  have w2: "within_limit example_runtime 2"
    using nip [of _ _ _ _ _ _ 2, THEN conjunct2, THEN conjunct2, THEN conjunct1, THEN mp, OF l3(2)] .
  have second: "py_int example_runtime (JStr (U ''3'')) = Inr 3"
    using nip [of _ _ _ _ _ _ 3, THEN conjunct2, THEN conjunct2, THEN conjunct2, THEN conjunct1,
        THEN mp, OF w3]
    unfolding str_int_small .
  have lower: "py_lower example_runtime (U ''a'') = U ''a''"
    by (simp add: py_lower_def is_ascii_def ascii_lower_def U_def)
  have b: "?u (U ''ID'') = Some (JStr (str_int 3)) \<and> ?u (U ''FORM'') = Some (JStr (U ''a'')) \<and>
       ?u (U ''HEAD ID'') = Some (JStr (str_int 2)) \<and> within_limit example_runtime 3 \<and>
       within_limit example_runtime 2 \<and>
       py_str example_runtime (dict_get ?u (U ''LEMMA'') (JStr (py_lower example_runtime (U ''a'')))) = Inr (U ''a'') \<and>
       py_str example_runtime (dict_get ?u (U ''UPOS'') (JStr (U ''X''))) = Inr (U ''X'') \<and>
       py_str example_runtime (dict_get ?u (U ''DEPREL'') (JStr (U ''dep''))) = Inr (U ''dep'')"
  proof -
    have k: "?u (U ''ID'') = Some (JStr (str_int 3))" "?u (U ''FORM'') = Some (JStr (U ''a''))"
      "?u (U ''HEAD ID'') = Some (JStr (str_int 2))"
      unfolding str_int_small by (rule three_key_lookup)+
    have g: "dict_get ?u (U ''LEMMA'') d = d" "dict_get ?u (U ''UPOS'') d = d"
      "dict_get ?u (U ''DEPREL'') d = d" for d
      unfolding dict_get_def three_key_lookup by simp_all
    have p: "py_str example_runtime (JStr x) = Inr x" for x
      by (simp add: py_str_def)
    have l1: "py_str example_runtime (dict_get ?u (U ''LEMMA'') (JStr (py_lower example_runtime (U ''a'')))) = Inr (U ''a'')"
      unfolding g lower by (rule p)
    have l2: "py_str example_runtime (dict_get ?u (U ''UPOS'') (JStr (U ''X''))) = Inr (U ''X'')"
      unfolding g by (rule p)
    have l3: "py_str example_runtime (dict_get ?u (U ''DEPREL'') (JStr (U ''dep''))) = Inr (U ''dep'')"
      unfolding g by (rule p)
    from k(1) k(2) k(3) w3 w2 l1 l2 l3 show ?thesis
      by (intro conjI)
  qed
  have third: "token_line example_runtime ?u =
       Inr (join TAB [str_int 3, U ''a'', U ''a'', U ''X'', U ''_'', U ''_'', str_int 2, U ''dep'',
                      U ''_'', U ''_''])"
    using nip [of _ _ _ _ _ _ 3 ?u "U ''a''" 2 "U ''a''" "U ''X''" "U ''dep''",
        THEN conjunct2, THEN conjunct2, THEN conjunct2, THEN conjunct2, THEN mp, OF b] .
  from first second third show ?thesis
    unfolding str_int_small by (intro conjI)
qed

section \<open>Properties of the Checkpoint Resolver\<close>

lemmas checkpoint_eval =
  get_last_processed_index_def file_lines_def scan_line_def header_value_def py_strip_def
  py_isspace_def py_split_def int_of_string_def parse_int_def is_ascii_def c_isspace_def
  is_digit_def digit_val_def exceeds_limit_def U_def


lemma scan_line_max:
  "scan_line rt acc l = (case header_value rt l of None \<Rightarrow> acc | Some n \<Rightarrow> max acc n)"
  by (simp add: scan_line_def max_def split: option.splits)

lemma foldl_scan_line:
  "foldl (scan_line rt) acc ls = Max (set (acc # List.map_filter (header_value rt) ls))"
proof (induction ls arbitrary: acc)
  case Nil
  then show ?case by (simp add: List.map_filter_simps)
next
  case (Cons l ls)
  show ?case
  proof (cases "header_value rt l")
    case None
    then have step: "scan_line rt acc l = acc"
      by (simp add: scan_line_max)
    have "foldl (scan_line rt) acc (l # ls) = foldl (scan_line rt) acc ls"
      by (simp add: step)
    then show ?thesis
      using Cons.IH [of acc] None by (simp add: List.map_filter_simps)
  next
    case (Some n)
    have step: "scan_line rt acc l = max acc n"
      using Some by (simp add: scan_line_max)
    have "foldl (scan_line rt) acc (l # ls) = foldl (scan_line rt) (max acc n) ls"
      by (simp add: step)
    also have "\<dots> = Max (set (max acc n # List.map_filter (header_value rt) ls))"
      by (rule Cons.IH)
    also have "\<dots> = Max (insert acc (insert n (set (List.map_filter (header_value rt) ls))))"
      by (cases "set (List.map_filter (header_value rt) ls) = {}") (simp_all add: max.assoc)
    finally show ?thesis
      using Some by (simp add: List.map_filter_simps)
  qed
qed



lemma get_last_processed_index_characterisation:
  "get_last_processed_index rt Missing = Inr 0"
  "get_last_processed_index rt Unreadable = Inl ReadError"
  "get_last_processed_index rt (Text text) =
     Inr (Max (set (0 # List.map_filter (header_value rt) (file_lines text))))"
  by (simp_all add: get_last_processed_index_def foldl_scan_line)

text \<open>
  Claim C4 (checkpoint derivation): the resolver returns the maximum N over the header
  lines \<^verbatim>\<open># sent_id = auto-N\<close>, 0 when there is no Corpus or no header, and passes over the
  headers whose N is not an integer. The docstring of the function says the same
  (\<^verbatim>\<open>0 if file does not exist or no such lines, max_N otherwise\<close>). The code departs from
  it on two inputs, evaluated here. The running maximum starts at 0, so the Corpus whose
  only header is \<^verbatim>\<open># sent_id = auto--5\<close> resolves to 0, where the header is read as -5 and
  the maximum is -5. And N is taken as the last piece of \<^verbatim>\<open>line.split("auto-")\<close>, so the
  header \<^verbatim>\<open># sent_id = auto-xauto-9\<close>, whose N is the text \<^verbatim>\<open>xauto-9\<close> and not an integer, is
  not passed over: the Corpus resolves to 9, where the claim gives 0.
\<close>

theorem checkpoint_failing_inputs:
  "get_last_processed_index example_runtime (Text (U ''# sent_id = auto--5'')) = Inr 0
   \<and> header_value example_runtime (U ''# sent_id = auto--5'') = Some (- 5)
   \<and> claimed_checkpoint [- 5] = - 5
   \<and> get_last_processed_index example_runtime (Text (U ''# sent_id = auto-xauto-9'')) = Inr 9
   \<and> int_of_string example_runtime (U ''xauto-9'') = None
   \<and> claimed_checkpoint [] = 0"
  by (simp add: checkpoint_eval claimed_checkpoint_def)

section \<open>Properties of the Pipeline Orchestrator\<close>

subsection \<open>One sentence\<close>

lemma utf8_encodable_append [simp]:
  "utf8_encodable (a @ b) \<longleftrightarrow> utf8_encodable a \<and> utf8_encodable b"
  by (simp add: utf8_encodable_def)

lemma utf8_encodable_ascii: "is_ascii s \<Longrightarrow> utf8_encodable s"
  by (auto simp: utf8_encodable_def is_ascii_def list_all_iff)

lemma utf8_encodable_str_int [simp]: "utf8_encodable (str_int i)"
  by (rule utf8_encodable_ascii) (rule str_int_ascii)

lemma utf8_encodable_NL [simp]: "utf8_encodable NL"
  by (simp add: utf8_encodable_def NL_def)

lemma utf8_encodable_literals [simp]:
  "utf8_encodable (U ''# sent_id = auto-'')" "utf8_encodable (U ''# text = '')"
  "utf8_encodable (U ''Sentence index: '')" "utf8_encodable (U ''Sentence: '')"
  "utf8_encodable (U ''Error: '')"
  by (simp_all add: utf8_encodable_def U_def)

lemma gold_text_update [simp]: "gold_text (w\<lparr>gold := Text t\<rparr>) = t"
  by (simp add: gold_text_def)

lemma gold_text_other [simp]:
  "gold_text (w\<lparr>annotated := a\<rparr>) = gold_text w"
  "gold_text (w\<lparr>validated := v\<rparr>) = gold_text w"
  "gold_text (w\<lparr>logs := l\<rparr>) = gold_text w"
  by (simp_all add: gold_text_def)

lemma commit_encodable:
  assumes "utf8_encodable sent" "utf8_encodable conllu_str"
  shows "commit i sent conllu_str w =
           (Committed, w\<lparr>gold := Text (gold_text w @ commit_block i sent conllu_str)\<rparr>)"
  using assms by (simp add: commit_def gold_write_def commit_block_def)

lemma validated_record_encodable:
  "validated_record rt sv model i sent = Some r \<Longrightarrow> utf8_encodable r"
  by (auto simp: validated_record_def split: sum.splits if_splits prod.splits)

lemma annotate_one_sentence_pass:
  assumes "validated_record rt sv model i sent = Some r"
  shows "\<exists>tokens v_log. annotate_one_sentence rt sv sent i model w =
           (Inr (True, r, tokens, v_log),
            w\<lparr>annotated := annotated w @ [(i, sent)], validated := validated w @ [(i, r)]\<rparr>)"
  using assms
  by (auto simp: annotate_one_sentence_def validate_conllu_def validated_record_def Let_def
      split: sum.splits prod.splits if_splits)

lemma annotate_one_sentence_no_pass:
  assumes "validated_record rt sv model i sent = None"
    "annotate_one_sentence rt sv sent i model w = (res, w1)"
  shows "(\<forall>r tokens v_log. res \<noteq> Inr (True, r, tokens, v_log)) \<and> gold w1 = gold w \<and>
         logs w1 = logs w \<and> raw_sentences w1 = raw_sentences w"
  using assms
  by (auto simp: annotate_one_sentence_def validate_conllu_def validated_record_def Let_def
      split: sum.splits prod.splits if_splits)

lemma write_text_keeps:
  "write_text p d w = (r, w') \<Longrightarrow> gold w' = gold w \<and> raw_sentences w' = raw_sentences w \<and>
     annotated w' = annotated w \<and> validated w' = validated w"
  by (auto simp: write_text_def split: if_splits)

lemma log_invalid_keeps:
  "log_invalid sv i tokens c v w = (r, w') \<Longrightarrow> r \<noteq> Committed \<and> gold w' = gold w \<and>
     raw_sentences w' = raw_sentences w \<and> annotated w' = annotated w \<and> validated w' = validated w"
  by (auto simp: log_invalid_def write_text_def split: option.splits if_splits)

lemma process_sentence_commit:
  assumes "validated_record rt sv model i sent = Some r" "utf8_encodable sent"
    "within_limit rt i" "within_limit rt n_total"
  shows "process_sentence rt sv model n_total i sent w =
           (Committed, w\<lparr>annotated := annotated w @ [(i, sent)],
                          validated := validated w @ [(i, r)],
                          gold := Text (gold_text w @ commit_block i sent r)\<rparr>)"
proof -
  obtain tokens v_log where a: "annotate_one_sentence rt sv sent i model w =
           (Inr (True, r, tokens, v_log),
            w\<lparr>annotated := annotated w @ [(i, sent)], validated := validated w @ [(i, r)]\<rparr>)"
    using annotate_one_sentence_pass [OF assms(1)] by blast
  show ?thesis
    unfolding process_sentence_def
    by (simp add: assms(3,4) a commit_encodable [OF assms(2) validated_record_encodable [OF assms(1)]])
qed

lemma process_sentence_no_commit:
  assumes "validated_record rt sv model i sent = None \<or> \<not> within_limit rt i \<or> \<not> within_limit rt n_total"
    "process_sentence rt sv model n_total i sent w = (res, w')"
  shows "res \<noteq> Committed \<and> gold w' = gold w \<and> raw_sentences w' = raw_sentences w"
proof (cases "within_limit rt i \<and> within_limit rt n_total")
  case False
  with assms(2) show ?thesis by (auto simp: process_sentence_def)
next
  case True
  with assms(1) have v: "validated_record rt sv model i sent = None" by blast
  obtain a w1 where a: "annotate_one_sentence rt sv sent i model w = (a, w1)"
    by (cases "annotate_one_sentence rt sv sent i model w")
  note n = annotate_one_sentence_no_pass [OF v a]
  show ?thesis
  proof (cases a)
    case (Inl msg)
    with assms(2) True a n show ?thesis
      by (auto simp: process_sentence_def write_text_def split: if_splits)
  next
    case (Inr q)
    obtain ok c tokens v_log where q: "q = (ok, c, tokens, v_log)" by (cases q)
    with n Inr have "\<not> ok" by auto
    with assms(2) True a Inr q have "log_invalid sv i tokens c v_log w1 = (res, w')"
      by (simp add: process_sentence_def)
    from log_invalid_keeps [OF this] n show ?thesis by simp
  qed
qed

subsection \<open>The loop\<close>

lemma run_loop_gold:
  assumes "\<forall>item \<in> set items. utf8_encodable (snd item)"
  shows "gold_text (snd (run_loop rt sv model n_total sf items w)) =
     gold_text w @ concat (map (block_of rt sv model)
       (takeWhile (commits rt sv model n_total) (filter (\<lambda>item. sf \<le> fst item) items)))"
  using assms
proof (induction items arbitrary: w)
  case Nil
  then show ?case by simp
next
  case (Cons item items)
  obtain i sent where item: "item = (i, sent)" by (cases item)
  from Cons.prems have enc: "utf8_encodable sent" and rest: "\<forall>item \<in> set items. utf8_encodable (snd item)"
    by (simp_all add: item)
  show ?case
  proof (cases "i < sf")
    case True
    then show ?thesis using Cons.IH [OF rest, of w] by (simp add: item)
  next
    case False
    show ?thesis
    proof (cases "commits rt sv model n_total (i, sent)")
      case False
      then have n: "validated_record rt sv model i sent = None \<or> \<not> within_limit rt i \<or>
          \<not> within_limit rt n_total"
        by (auto simp: commits_def)
      obtain res w' where p: "process_sentence rt sv model n_total i sent w = (res, w')"
        by (cases "process_sentence rt sv model n_total i sent w")
      from process_sentence_no_commit [OF n p] have "res \<noteq> Committed" "gold w' = gold w"
        by simp_all
      then show ?thesis
        using \<open>\<not> i < sf\<close> False p by (cases res) (simp_all add: item gold_text_def)
    next
      case True
      then obtain r where r: "validated_record rt sv model i sent = Some r"
        and lim: "within_limit rt i" "within_limit rt n_total"
        by (auto simp: commits_def)
      let ?w' = "w\<lparr>annotated := annotated w @ [(i, sent)],
                     validated := validated w @ [(i, r)],
                     gold := Text (gold_text w @ commit_block i sent r)\<rparr>"
      have p: "process_sentence rt sv model n_total i sent w = (Committed, ?w')"
        by (rule process_sentence_commit [OF r enc lim])
      show ?thesis
        using \<open>\<not> i < sf\<close> True r Cons.IH [OF rest, of ?w'] p
        by (simp add: item block_of_def)
    qed
  qed
qed

lemma run_loop_append:
  "run_loop rt sv model n_total sf (pre @ rest) w =
     (case run_loop rt sv model n_total sf pre w of
        (Exhausted, w1) \<Rightarrow> run_loop rt sv model n_total sf rest w1
      | (Broke, w1) \<Rightarrow> (Broke, w1)
      | (Aborted e, w1) \<Rightarrow> (Aborted e, w1))"
proof (induction pre arbitrary: w)
  case Nil
  then show ?case by simp
next
  case (Cons item pre)
  obtain i sent where item: "item = (i, sent)" by (cases item)
  show ?case
    using Cons.IH by (simp add: item split: prod.splits outcome.splits)
qed

lemma run_loop_exhausted_keeps:
  "run_loop rt sv model n_total sf items w = (Exhausted, w1) \<Longrightarrow>
   logs w1 = logs w \<and> raw_sentences w1 = raw_sentences w"
proof (induction items arbitrary: w)
  case Nil
  then show ?case by simp
next
  case (Cons item items)
  obtain i sent where item: "item = (i, sent)" by (cases item)
  show ?case
  proof (cases "i < sf")
    case True
    with Cons show ?thesis by (simp add: item)
  next
    case False
    obtain res w' where p: "process_sentence rt sv model n_total i sent w = (res, w')"
      by (cases "process_sentence rt sv model n_total i sent w")
    with Cons.prems False have res: "res = Committed"
      and l: "run_loop rt sv model n_total sf items w' = (Exhausted, w1)"
      by (cases res; simp add: item)+
    have "logs w' = logs w \<and> raw_sentences w' = raw_sentences w"
      using p res
      by (auto simp: process_sentence_def annotate_one_sentence_def validate_conllu_def
          commit_def gold_write_def log_invalid_def write_text_def Let_def
          split: if_splits sum.splits prod.splits option.splits)
    with Cons.IH [OF l] show ?thesis by simp
  qed
qed

lemma splitlines_aux_chars:
  "l \<in> set (splitlines_aux cur t) \<Longrightarrow> set l \<subseteq> set cur \<union> set t"
  by (induction cur t rule: splitlines_aux.induct) (auto split: if_splits)

lemma py_strip_chars: "set (py_strip rt s) \<subseteq> set s"
  by (auto simp: py_strip_def dest!: set_dropWhileD)

lemma utf8_encodable_subset: "set a \<subseteq> set b \<Longrightarrow> utf8_encodable b \<Longrightarrow> utf8_encodable a"
  by (auto simp: utf8_encodable_def list_all_iff)

lemma read_sentences_encodable:
  assumes "utf8_encodable text" "s \<in> set (read_sentences rt text)"
  shows "utf8_encodable s"
proof -
  from assms(2) obtain l where l: "l \<in> set (py_splitlines text)" and s: "s = py_strip rt l"
    by (auto simp: read_sentences_def)
  from l have "set l \<subseteq> set text"
    using splitlines_aux_chars [of l "[]" "text"] by (simp add: py_splitlines_def)
  with py_strip_chars [of rt l] have "set s \<subseteq> set text"
    unfolding s by blast
  then show ?thesis using assms(1) by (rule utf8_encodable_subset)
qed

lemma enumerate_from_snd: "item \<in> set (enumerate_from i xs) \<Longrightarrow> snd item \<in> set xs"
  by (induction xs arbitrary: i) auto

lemma enumerate_from_fst:
  "item \<in> set (enumerate_from i xs) \<Longrightarrow> i \<le> fst item \<and> fst item < i + int (length xs)"
proof (induction xs arbitrary: i)
  case Nil
  then show ?case by simp
next
  case (Cons x xs)
  then show ?case by fastforce
qed




lemma block_of_commits:
  assumes "commits rt sv model n_total item"
  shows "block_of rt sv model item =
     commit_block (fst item) (snd item) (the (validated_record rt sv model (fst item) (snd item)))"
proof -
  from assms obtain r where "validated_record rt sv model (fst item) (snd item) = Some r"
    unfolding commits_def by blast
  then show ?thesis by (simp add: block_of_def)
qed

lemma validated_record_Some:
  assumes "validated_record rt sv model i s = Some r"
  shows "\<exists>tokens out err.
      annotate sv (if model = [] then U ''gpt-5-mini'' else model) i s = Inr tokens \<and>
      tokens_to_conllu rt tokens = Inr r \<and> run_validator sv i r = Inr (0, out, err)"
proof (cases "annotate sv (if model = [] then U ''gpt-5-mini'' else model) i s")
  case (Inl msg)
  with assms show ?thesis by (simp add: validated_record_def)
next
  case (Inr tokens)
  note tok = Inr
  show ?thesis
  proof (cases "tokens_to_conllu rt tokens")
    case (Inl ce)
    with assms tok show ?thesis by (simp add: validated_record_def)
  next
    case (Inr c)
    note conv = Inr
    show ?thesis
    proof (cases "script_present sv \<and> utf8_encodable c")
      case False
      with assms tok conv show ?thesis by (simp add: validated_record_def)
    next
      case True
      show ?thesis
      proof (cases "run_validator sv i c")
        case (Inl msg)
        with assms tok conv True show ?thesis by (simp add: validated_record_def)
      next
        case (Inr q)
        obtain rc out err where q: "q = (rc, out, err)" by (cases q)
        from assms tok conv True Inr q have "rc = 0" "c = r"
          by (simp_all add: validated_record_def split: if_splits)
        with tok conv Inr q show ?thesis by simp
      qed
    qed
  qed
qed

lemma run_loop_gold_blocks:
  assumes "\<forall>item \<in> set items. utf8_encodable (snd item)"
  shows "\<exists>cs. gold_text (snd (run_loop rt sv model n_total sf items w)) =
            gold_text w @ concat (map (\<lambda>(i, s, r). commit_block i s r) cs) \<and>
          (\<forall>(i, s, r) \<in> set cs. (i, s) \<in> set items \<and> sf \<le> i \<and>
             validated_record rt sv model i s = Some r)"
proof -
  define sel where "sel = takeWhile (commits rt sv model n_total) (filter (\<lambda>item. sf \<le> fst item) items)"
  define h where "h = (\<lambda>item :: int \<times> ustring.
     (fst item, snd item, the (validated_record rt sv model (fst item) (snd item))))"
  have sel: "item \<in> set items \<and> sf \<le> fst item \<and> commits rt sv model n_total item"
    if "item \<in> set sel" for item
    using set_takeWhileD [OF that [unfolded sel_def]] by simp
  have b: "block_of rt sv model item = (\<lambda>(i, s, r). commit_block i s r) (h item)"
    if "item \<in> set sel" for item
  proof -
    from sel [OF that] have c: "commits rt sv model n_total item" by simp
    show ?thesis by (simp add: h_def block_of_commits [OF c])
  qed
  have "map (block_of rt sv model) sel = map (\<lambda>item. (\<lambda>(i, s, r). commit_block i s r) (h item)) sel"
    by (rule map_cong [OF refl]) (rule b)
  also have "\<dots> = map (\<lambda>(i, s, r). commit_block i s r) (map h sel)"
    by (simp add: comp_def)
  finally have m: "map (block_of rt sv model) sel = map (\<lambda>(i, s, r). commit_block i s r) (map h sel)" .
  have g: "gold_text (snd (run_loop rt sv model n_total sf items w)) =
            gold_text w @ concat (map (\<lambda>(i, s, r). commit_block i s r) (map h sel))"
    using run_loop_gold [OF assms, of rt sv model n_total sf w]
    unfolding sel_def [symmetric] m .
  have v: "(i, s) \<in> set items \<and> sf \<le> i \<and> validated_record rt sv model i s = Some r"
    if "(i, s, r) \<in> set (map h sel)" for i s r
  proof -
    from that obtain item where it: "item \<in> set sel" and eq: "(i, s, r) = h item" by auto
    from eq have i: "i = fst item" and s: "s = snd item"
      and r: "r = the (validated_record rt sv model (fst item) (snd item))"
      by (simp_all add: h_def)
    from sel [OF it] have "item \<in> set items" "sf \<le> fst item"
      "validated_record rt sv model (fst item) (snd item) \<noteq> None"
      by (simp_all add: commits_def)
    then show ?thesis unfolding i s r by auto
  qed
  have "\<forall>(i, s, r) \<in> set (map h sel). (i, s) \<in> set items \<and> sf \<le> i \<and>
             validated_record rt sv model i s = Some r"
    using v by blast
  with g show ?thesis by blast
qed

subsection \<open>The run\<close>

lemma main_unfold:
  assumes "raw_sentences w = Text tx" "utf8_encodable tx"
    "get_last_processed_index rt (gold w) = Inr l"
  shows "main rt sv a model w =
     (if resume_index a l > int (length (read_sentences rt tx)) then
        (if within_limit rt (resume_index a l) \<and> within_limit rt (int (length (read_sentences rt tx)))
         then (None, w) else (Some ValueError, w))
      else if \<not> (within_limit rt (int (length (read_sentences rt tx))) \<and> within_limit rt l \<and>
                 within_limit rt (resume_index a l))
      then (Some ValueError, w)
      else
        (case run_loop rt sv model (int (length (read_sentences rt tx))) (resume_index a l)
                (enumerate_from 1 (read_sentences rt tx)) (w\<lparr>gold := Text (gold_text w)\<rparr>) of
           (Exhausted, w') \<Rightarrow> (None, w')
         | (Broke, w') \<Rightarrow> (None, w')
         | (Aborted e, w') \<Rightarrow> (Some e, w')))"
  unfolding main_def assms(1) by (simp add: assms(2,3) Let_def)

lemma main_early:
  assumes "raw_sentences w \<noteq> Text tx \<or> \<not> utf8_encodable tx \<or>
    (\<exists>e. get_last_processed_index rt (gold w) = Inl e)"
    "raw_sentences w = Text tx \<or> raw_sentences w = Missing \<or> raw_sentences w = Unreadable"
  shows "snd (main rt sv a model w) = w"
  using assms by (auto simp: main_def)

lemma main_cases:
  "snd (main rt sv a model w) = w \<or>
   (\<exists>tx l. raw_sentences w = Text tx \<and> utf8_encodable tx \<and>
      get_last_processed_index rt (gold w) = Inr l \<and>
      resume_index a l \<le> int (length (read_sentences rt tx)) \<and>
      snd (main rt sv a model w) =
        snd (run_loop rt sv model (int (length (read_sentences rt tx))) (resume_index a l)
               (enumerate_from 1 (read_sentences rt tx)) (w\<lparr>gold := Text (gold_text w)\<rparr>)))"
proof (cases "raw_sentences w")
  case Missing
  then show ?thesis by (simp add: main_def)
next
  case Unreadable
  then show ?thesis by (simp add: main_def)
next
  case (Text tx)
  show ?thesis
  proof (cases "utf8_encodable tx")
    case False
    with Text show ?thesis by (simp add: main_def)
  next
    case True
    show ?thesis
    proof (cases "get_last_processed_index rt (gold w)")
      case (Inl e)
      with Text True show ?thesis by (simp add: main_def)
    next
      case (Inr l)
      note u = main_unfold [OF Text True Inr, of sv a model]
      let ?T = "int (length (read_sentences rt tx))"
      let ?L = "run_loop rt sv model ?T (resume_index a l)
               (enumerate_from 1 (read_sentences rt tx)) (w\<lparr>gold := Text (gold_text w)\<rparr>)"
      show ?thesis
      proof (cases "resume_index a l > ?T")
        case True
        then have "snd (main rt sv a model w) = w" unfolding u by simp
        then show ?thesis ..
      next
        case False
        show ?thesis
        proof (cases "within_limit rt ?T \<and> within_limit rt l \<and> within_limit rt (resume_index a l)")
          case False
          with \<open>\<not> resume_index a l > ?T\<close> have "snd (main rt sv a model w) = w" unfolding u by simp
          then show ?thesis ..
        next
          case True
          obtain le w' where L: "?L = (le, w')" by (cases ?L)
          have "snd (main rt sv a model w) = snd ?L"
            unfolding u using False True L by (cases le) simp_all
          with Text \<open>utf8_encodable tx\<close> Inr False show ?thesis by auto
        qed
      qed
    qed
  qed
qed

lemma main_gold_blocks:
  "\<exists>cs. gold_text (snd (main rt sv a model w)) =
          gold_text w @ concat (map (\<lambda>(i, s, r). commit_block i s r) cs) \<and>
        (\<forall>(i, s, r) \<in> set cs. validated_record rt sv model i s = Some r)"
proof -
  from main_cases [of rt sv a model w] show ?thesis
  proof
    assume "snd (main rt sv a model w) = w"
    then have "gold_text (snd (main rt sv a model w)) =
          gold_text w @ concat (map (\<lambda>(i, s, r). commit_block i s r) [])" by simp
    moreover have "\<forall>(i, s, r) \<in> set ([] :: (int \<times> ustring \<times> ustring) list).
        validated_record rt sv model i s = Some r" by simp
    ultimately show ?thesis by blast
  next
    assume "\<exists>tx l. raw_sentences w = Text tx \<and> utf8_encodable tx \<and>
      get_last_processed_index rt (gold w) = Inr l \<and>
      resume_index a l \<le> int (length (read_sentences rt tx)) \<and>
      snd (main rt sv a model w) =
        snd (run_loop rt sv model (int (length (read_sentences rt tx))) (resume_index a l)
               (enumerate_from 1 (read_sentences rt tx)) (w\<lparr>gold := Text (gold_text w)\<rparr>))"
    then obtain tx l where enc: "utf8_encodable tx"
      and w': "snd (main rt sv a model w) =
        snd (run_loop rt sv model (int (length (read_sentences rt tx))) (resume_index a l)
               (enumerate_from 1 (read_sentences rt tx)) (w\<lparr>gold := Text (gold_text w)\<rparr>))"
      by blast
    have e: "\<forall>item \<in> set (enumerate_from 1 (read_sentences rt tx)). utf8_encodable (snd item)"
      using enumerate_from_snd read_sentences_encodable [OF enc] by blast
    from run_loop_gold_blocks [OF e, of rt sv model "int (length (read_sentences rt tx))"
        "resume_index a l" "w\<lparr>gold := Text (gold_text w)\<rparr>"]
    obtain cs where "gold_text (snd (main rt sv a model w)) =
        gold_text w @ concat (map (\<lambda>(i, s, r). commit_block i s r) cs)"
      and c: "\<forall>(i, s, r) \<in> set cs. (i, s) \<in> set (enumerate_from 1 (read_sentences rt tx)) \<and>
         resume_index a l \<le> i \<and> validated_record rt sv model i s = Some r"
      unfolding w' [symmetric] by (auto simp: gold_text_def)
    moreover from c have "\<forall>(i, s, r) \<in> set cs. validated_record rt sv model i s = Some r"
      by blast
    ultimately show ?thesis by blast
  qed
qed

lemma process_sentence_gold:
  assumes "process_sentence rt sv model n_total i s w = (res, w')" "utf8_encodable s"
  shows "gold_text w' = gold_text w \<or>
     (\<exists>r. validated_record rt sv model i s = Some r \<and> gold_text w' = gold_text w @ commit_block i s r)"
proof (cases "validated_record rt sv model i s = None \<or> \<not> within_limit rt i \<or> \<not> within_limit rt n_total")
  case True
  from process_sentence_no_commit [OF True assms(1)] show ?thesis
    by (simp add: gold_text_def)
next
  case False
  then obtain r where r: "validated_record rt sv model i s = Some r"
    and l: "within_limit rt i" "within_limit rt n_total" by auto
  from process_sentence_commit [OF r assms(2) l, of w] assms(1) r show ?thesis
    by auto
qed




subsection \<open>Examples\<close>

lemma utf8_encodable_U [simp]: "utf8_encodable (U s)"
proof -
  have "of_char c < (55296 :: nat)" for c :: char
    using nat_of_char_less_256 [of c] by linarith
  then show ?thesis
    by (simp add: utf8_encodable_def U_def list_all_iff)
qed

lemma utf8_encodable_Cons [simp]:
  "utf8_encodable (c # s) \<longleftrightarrow> (c < 55296 \<or> (57343 < c \<and> c < 1114112)) \<and> utf8_encodable s"
  "utf8_encodable []"
  by (simp_all add: utf8_encodable_def)

lemma utf8_encodable_TAB [simp]: "utf8_encodable TAB"
  by (simp add: utf8_encodable_def TAB_def)




lemma example_checkpoint_missing:
  "get_last_processed_index example_runtime Missing = Inr 0"
  by (simp add: get_last_processed_index_def)

lemma example_record:
  "validated_record example_runtime example_services [] 1 (U ''a'') =
     Some (U ''1'' @ TAB @ U ''a'' @ TAB @ U ''a'' @ TAB @ U ''X'' @ TAB @ U ''_'' @ TAB @
           U ''_'' @ TAB @ U ''0'' @ TAB @ U ''dep'' @ TAB @ U ''_'' @ TAB @ U ''_'' @ NL)"
proof -
  have ne: "U ''a'' \<noteq> U ''bad''" by (simp add: U_def)
  have a: "annotate example_services (U ''gpt-5-mini'') 1 (U ''a'') =
      Inr [[U ''ID'' \<mapsto> JInt 1, U ''FORM'' \<mapsto> JStr (U ''a'')]]"
    using ne by (simp add: example_services_def)
  have p: "py_int example_runtime (JInt 1) = Inr 1" by (simp add: py_int_def)
  have s: "py_str example_runtime (JStr (U ''a'')) = Inr (U ''a'')" by (simp add: py_str_def)
  have l: "py_lower example_runtime (U ''a'') = U ''a''"
    by (simp add: py_lower_def is_ascii_def ascii_lower_def U_def)
  have t: "tokens_to_conllu example_runtime [[U ''ID'' \<mapsto> JInt 1, U ''FORM'' \<mapsto> JStr (U ''a'')]] =
     Inr (U ''1'' @ TAB @ U ''a'' @ TAB @ U ''a'' @ TAB @ U ''X'' @ TAB @ U ''_'' @ TAB @
           U ''_'' @ TAB @ U ''0'' @ TAB @ U ''dep'' @ TAB @ U ''_'' @ TAB @ U ''_'' @ NL)"
    using single_token_record [OF token_line_only_id_form [OF dom_id_form id_form_lookup p py_str_int_1 s]]
    unfolding l by (simp only: append_assoc)
  have e: "utf8_encodable (U ''1'' @ TAB @ U ''a'' @ TAB @ U ''a'' @ TAB @ U ''X'' @ TAB @ U ''_'' @ TAB @
           U ''_'' @ TAB @ U ''0'' @ TAB @ U ''dep'' @ TAB @ U ''_'' @ TAB @ U ''_'' @ NL)"
    by simp
  have v: "run_validator example_services 1 r = Inr (0, U ''out'', U ''err'')" for r
    by (simp add: example_services_def)
  have sp: "script_present example_services" by (simp add: example_services_def)
  show ?thesis
    unfolding validated_record_def by (simp add: a t e v sp)
qed



text \<open>
  Claim C1 (Corpus validation invariant). At every point of a run, taken after each round
  of the loop and at the end of the run however it ends, the text appended to the Corpus
  is a sequence of whole blocks, each made of the header and the Record of a sentence for
  which the Format Validator Adapter returned pass: the service answered, the answer
  converted to this Record, and the validator exited with status 0 on it. A round of the
  loop appends either nothing or exactly one such block. The sentences are those read from
  the sentence file, which hold no surrogate code point.
\<close>

theorem corpus_validation_invariant:
  "((\<forall>item \<in> set items. utf8_encodable (snd item)) \<longrightarrow>
      (\<exists>cs. gold_text (snd (run_loop rt sv model n_total sf (take k items) w)) =
               gold_text w @ concat (map (\<lambda>(i, s, r). commit_block i s r) cs) \<and>
            (\<forall>(i, s, r) \<in> set cs. (i, s) \<in> set items \<and>
               validated_record rt sv model i s = Some r)))
   \<and> (\<exists>cs. gold_text (snd (main rt sv a model w)) =
               gold_text w @ concat (map (\<lambda>(i, s, r). commit_block i s r) cs) \<and>
            (\<forall>(i, s, r) \<in> set cs. validated_record rt sv model i s = Some r))
   \<and> (process_sentence rt sv model n_total j sent w = (res, w') \<and> utf8_encodable sent \<longrightarrow>
        gold_text w' = gold_text w \<or>
        (\<exists>r. validated_record rt sv model j sent = Some r \<and>
              gold_text w' = gold_text w @ commit_block j sent r))
   \<and> (validated_record rt sv model j sent = Some rec \<longrightarrow>
        (\<exists>tokens out err.
           annotate sv (if model = [] then U ''gpt-5-mini'' else model) j sent = Inr tokens \<and>
           tokens_to_conllu rt tokens = Inr rec \<and> run_validator sv j rec = Inr (0, out, err)))"
proof (intro conjI impI)
  assume e: "\<forall>item \<in> set items. utf8_encodable (snd item)"
  then have e': "\<forall>item \<in> set (take k items). utf8_encodable (snd item)"
    using set_take_subset [of k items] by blast
  from run_loop_gold_blocks [OF e', of rt sv model n_total sf w]
  obtain cs where g: "gold_text (snd (run_loop rt sv model n_total sf (take k items) w)) =
               gold_text w @ concat (map (\<lambda>(i, s, r). commit_block i s r) cs)"
    and c: "\<forall>(i, s, r) \<in> set cs. (i, s) \<in> set (take k items) \<and> sf \<le> i \<and>
               validated_record rt sv model i s = Some r"
    by blast
  from c have "\<forall>(i, s, r) \<in> set cs. (i, s) \<in> set items \<and>
               validated_record rt sv model i s = Some r"
    using set_take_subset [of k items] by fastforce
  with g show "\<exists>cs. gold_text (snd (run_loop rt sv model n_total sf (take k items) w)) =
               gold_text w @ concat (map (\<lambda>(i, s, r). commit_block i s r) cs) \<and>
            (\<forall>(i, s, r) \<in> set cs. (i, s) \<in> set items \<and>
               validated_record rt sv model i s = Some r)"
    by blast
next
  show "\<exists>cs. gold_text (snd (main rt sv a model w)) =
               gold_text w @ concat (map (\<lambda>(i, s, r). commit_block i s r) cs) \<and>
            (\<forall>(i, s, r) \<in> set cs. validated_record rt sv model i s = Some r)"
    by (rule main_gold_blocks)
next
  assume "process_sentence rt sv model n_total j sent w = (res, w') \<and> utf8_encodable sent"
  then show "gold_text w' = gold_text w \<or>
        (\<exists>r. validated_record rt sv model j sent = Some r \<and>
              gold_text w' = gold_text w @ commit_block j sent r)"
    using process_sentence_gold by blast
next
  assume "validated_record rt sv model j sent = Some rec"
  then show "\<exists>tokens out err.
           annotate sv (if model = [] then U ''gpt-5-mini'' else model) j sent = Inr tokens \<and>
           tokens_to_conllu rt tokens = Inr rec \<and> run_validator sv j rec = Inr (0, out, err)"
    by (rule validated_record_Some)
qed

theorem corpus_validation_invariant_witness:
  "(\<exists>cs. gold_text (snd (run_loop example_runtime example_services [] 1 1
                           (take 1 [(1, U ''a'')]) example_world)) =
            gold_text example_world @ concat (map (\<lambda>(i, s, r). commit_block i s r) cs) \<and>
         (\<forall>(i, s, r) \<in> set cs. (i, s) \<in> set [(1, U ''a'')] \<and>
            validated_record example_runtime example_services [] i s = Some r))
   \<and> (\<exists>tokens out err.
         annotate example_services (if [] = ([] :: ustring) then U ''gpt-5-mini'' else []) 1 (U ''a'')
           = Inr tokens \<and>
         tokens_to_conllu example_runtime tokens =
           Inr (U ''1'' @ TAB @ U ''a'' @ TAB @ U ''a'' @ TAB @ U ''X'' @ TAB @ U ''_'' @ TAB @
                U ''_'' @ TAB @ U ''0'' @ TAB @ U ''dep'' @ TAB @ U ''_'' @ TAB @ U ''_'' @ NL) \<and>
         run_validator example_services 1
           (U ''1'' @ TAB @ U ''a'' @ TAB @ U ''a'' @ TAB @ U ''X'' @ TAB @ U ''_'' @ TAB @
            U ''_'' @ TAB @ U ''0'' @ TAB @ U ''dep'' @ TAB @ U ''_'' @ TAB @ U ''_'' @ NL)
           = Inr (0, out, err))"
proof -
  have e: "\<forall>item \<in> set [(1 :: int, U ''a'')]. utf8_encodable (snd item)"
    by simp
  note inv = corpus_validation_invariant [where rt = example_runtime and sv = example_services
      and model = "[]"]
  from inv [where items = "[(1, U ''a'')]" and n_total = 1 and sf = 1 and k = 1
        and w = example_world, THEN conjunct1, THEN mp, OF e]
    inv [where j = 1 and sent = "U ''a''", THEN conjunct2, THEN conjunct2, THEN conjunct2, THEN mp,
      OF example_record]
  show ?thesis by (intro conjI)
qed




end
